theory Spec2Isabelle
  imports Complex_Main "HOL-Library.Word" "HOL-Library.Multiset" "HOL-Library.Monad_Syntax"
begin

unbundle bit_operations_syntax

section \<open>Object key factory (backup/util.go)\<close>

text \<open>
  \<^verbatim>\<open>hexLog\<close> counts the hexadecimal places of an \<^verbatim>\<open>int64\<close>; the shift
  \<^verbatim>\<open>n>>4\<close> is the floor division by 16. The recursion only runs on
  \<open>n \<ge> 16\<close>, where the result is at most 16, so no addition wraps.
\<close>

function hexLog :: "int \<Rightarrow> int" where
  "hexLog n = (if n < 16 then 1 else 1 + hexLog (n div 16))"
  by pat_completeness auto
termination
  by (relation "measure nat") auto

declare hexLog.simps [simp del]

text \<open>
  \<^verbatim>\<open>fmt.Sprintf("%x", k)\<close> for a non-negative \<^verbatim>\<open>k\<close>: the lowercase
  hexadecimal digits of \<open>k\<close>, most significant first; \<^verbatim>\<open>"%0Wx"\<close> pads
  with zeros on the left to at least \<open>W\<close> characters.
\<close>

definition hexdigit :: "nat \<Rightarrow> char" where
  "hexdigit d = ''0123456789abcdef'' ! d"

function fmt_x :: "nat \<Rightarrow> string" where
  "fmt_x k = (if k < 16 then [hexdigit k] else fmt_x (k div 16) @ [hexdigit (k mod 16)])"
  by pat_completeness auto
termination
  by (relation "measure id") auto

declare fmt_x.simps [simp del]

definition fmt_0x :: "nat \<Rightarrow> nat \<Rightarrow> string" where
  "fmt_0x w k = replicate (w - length (fmt_x k)) CHR ''0'' @ fmt_x k"

text \<open>
  The closure returned by \<^verbatim>\<open>keyFactory\<close> captures the format string (here its
  width) and the counter \<^verbatim>\<open>k\<close>; a call returns the key and the closure with
  the counter advanced.
\<close>

record keyFactory_state =
  keyFormat :: nat
  kf_k :: nat

definition keyFactory :: "int \<Rightarrow> keyFactory_state" where
  "keyFactory n = \<lparr> keyFormat = nat (hexLog n), kf_k = 0 \<rparr>"

definition nextKey :: "keyFactory_state \<Rightarrow> string \<times> keyFactory_state" where
  "nextKey st = (fmt_0x (keyFormat st) (kf_k st), st \<lparr> kf_k := kf_k st + 1 \<rparr>)"

fun nextKeys :: "nat \<Rightarrow> keyFactory_state \<Rightarrow> string list" where
  "nextKeys 0 st = []"
| "nextKeys (Suc n) st = (case nextKey st of (key, st') \<Rightarrow> key # nextKeys n st')"

text \<open>Reading a hexadecimal string back (used to state which number a key denotes).\<close>

definition hexval_digit :: "char \<Rightarrow> nat" where
  "hexval_digit c = (if of_char c < (58::nat) then of_char c - 48 else of_char c - 87)"

definition hexval :: "string \<Rightarrow> nat" where
  "hexval s = foldl (\<lambda>acc c. 16 * acc + hexval_digit c) 0 s"


lemma hexLog_pos: "1 \<le> hexLog n"
proof (induction n rule: hexLog.induct)
  case (1 n)
  then show ?case by (subst hexLog.simps) auto
qed

lemma hexLog_bounds:
  "0 \<le> n \<Longrightarrow> n < 16 ^ nat (hexLog n) \<and> (1 \<le> n \<longrightarrow> 16 ^ (nat (hexLog n) - 1) \<le> n)"
proof (induction n rule: hexLog.induct)
  case (1 n)
  show ?case
  proof (cases "n < 16")
    case True
    have "hexLog n = 1" using True by (subst hexLog.simps) simp
    then show ?thesis using True by simp
  next
    case False
    define m where "m = n div 16"
    define a where "a = nat (hexLog m)"
    have m: "0 \<le> m" "1 \<le> m" using False 1(2) by (auto simp: m_def)
    have ih: "m < 16 ^ a" "16 ^ (a - 1) \<le> m"
      using 1(1)[OF False] m by (auto simp: m_def a_def)
    have h: "hexLog n = 1 + hexLog m" using False by (subst hexLog.simps) (simp add: m_def)
    have p: "1 \<le> hexLog m" by (rule hexLog_pos)
    have e1: "nat (hexLog n) = Suc a" using h p by (simp add: a_def)
    obtain b where e2: "a = Suc b" using p by (cases a) (auto simp: a_def)
    have d: "n = 16 * m + n mod 16" "0 \<le> n mod 16" "n mod 16 < 16" by (simp_all add: m_def)
    have u: "n < 16 * 16 ^ a" using ih(1) d by linarith
    have l: "16 * 16 ^ b \<le> n" using ih(2) d e2 by simp
    show ?thesis unfolding e1 using u l e2 by simp
  qed
qed

lemma fmt_x_length_pos: "1 \<le> length (fmt_x k)"
  by (subst fmt_x.simps) simp

lemma fmt_x_length_le: "k < 16 ^ w \<Longrightarrow> 1 \<le> w \<Longrightarrow> length (fmt_x k) \<le> w"
proof (induction k arbitrary: w rule: fmt_x.induct)
  case (1 k)
  show ?case
  proof (cases "k < 16")
    case True
    then show ?thesis using 1(3) by (subst fmt_x.simps) simp
  next
    case False
    obtain v where w: "w = Suc v" using 1(3) by (cases w) auto
    have "v \<noteq> 0" using False 1(2) w by (cases v) auto
    then have v1: "1 \<le> v" by simp
    have "k < 16 ^ v * 16" using 1(2) w by simp
    then have "k div 16 < 16 ^ v" by (rule less_mult_imp_div_less)
    from 1(1)[OF False this v1] show ?thesis using False w by (subst fmt_x.simps) simp
  qed
qed

lemma hexval_digit_hexdigit: "d < 16 \<Longrightarrow> hexval_digit (hexdigit d) = d"
proof -
  assume d: "d < 16"
  have "list_all (\<lambda>d. hexval_digit (hexdigit d) = d) [0..<16]"
    by code_simp
  then show ?thesis using d by (simp add: list_all_iff)
qed

lemma hexval_snoc: "hexval (s @ [c]) = 16 * hexval s + hexval_digit c"
  by (simp add: hexval_def)

lemma hexval_fmt_x: "hexval (fmt_x k) = k"
proof (induction k rule: fmt_x.induct)
  case (1 k)
  show ?case
  proof (cases "k < 16")
    case True
    then show ?thesis by (subst fmt_x.simps) (simp add: hexval_def hexval_digit_hexdigit)
  next
    case False
    then show ?thesis using 1
      by (subst fmt_x.simps) (simp add: hexval_snoc hexval_digit_hexdigit)
  qed
qed

lemma hexval_zeros: "hexval (replicate n CHR ''0'' @ s) = hexval s"
proof -
  have "foldl (\<lambda>acc c. 16 * acc + hexval_digit c) 0 (replicate n CHR ''0'') = 0"
    by (induction n) (simp_all add: hexval_digit_def)
  then show ?thesis by (simp add: hexval_def)
qed

lemma hexval_fmt_0x: "hexval (fmt_0x w k) = k"
  by (simp add: fmt_0x_def hexval_zeros hexval_fmt_x)

lemma nextKeys_eq:
  "nextKeys n st = map (\<lambda>i. fmt_0x (keyFormat st) (kf_k st + i)) [0..<n]"
proof (induction n arbitrary: st)
  case 0
  then show ?case by simp
next
  case (Suc n)
  have "[0..<Suc n] = 0 # map Suc [0..<n]" by (simp add: upt_conv_Cons map_Suc_upt del: upt_Suc)
  then show ?case by (simp add: nextKey_def Suc comp_def del: upt_Suc)
qed

lemma hexdigit_lower: "d < 16 \<Longrightarrow> hexdigit d \<in> set ''0123456789abcdef''"
  unfolding hexdigit_def by (rule nth_mem) simp

lemma fmt_x_chars: "set (fmt_x k) \<subseteq> set ''0123456789abcdef''"
proof (induction k rule: fmt_x.induct)
  case (1 k)
  show ?case
  proof (cases "k < 16")
    case True
    then show ?thesis using hexdigit_lower[of k] by (subst fmt_x.simps) simp
  next
    case False
    have "hexdigit (k mod 16) \<in> set ''0123456789abcdef''" by (rule hexdigit_lower) simp
    then show ?thesis using False 1 by (subst fmt_x.simps) simp
  qed
qed

lemma fmt_0x_chars: "set (fmt_0x w k) \<subseteq> set ''0123456789abcdef''"
  using fmt_x_chars[of k] by (auto simp: fmt_0x_def)

lemma fmt_0x_length: "k < 16 ^ w \<Longrightarrow> 1 \<le> w \<Longrightarrow> length (fmt_0x w k) = w"
  using fmt_x_length_le[of k w] by (simp add: fmt_0x_def)

lemma hexLog_nat_bounds:
  "N < 16 ^ nat (hexLog (int N)) \<and> (1 \<le> N \<longrightarrow> 16 ^ (nat (hexLog (int N)) - 1) \<le> N)"
proof -
  define W where "W = nat (hexLog (int N))"
  have b: "int N < 16 ^ W" "1 \<le> N \<longrightarrow> (16::int) ^ (W - 1) \<le> int N"
    using hexLog_bounds[of "int N"] by (auto simp: W_def)
  have "int N < int (16 ^ W)" using b(1) by simp
  then have u: "N < 16 ^ W" by (simp only: of_nat_less_iff)
  have l: "1 \<le> N \<longrightarrow> 16 ^ (W - 1) \<le> N"
  proof
    assume "1 \<le> N"
    then have "int (16 ^ (W - 1)) \<le> int N" using b(2) by simp
    then show "16 ^ (W - 1) \<le> N" by (simp only: of_nat_le_iff)
  qed
  show ?thesis using u l by (simp add: W_def)
qed

text \<open>
  Claim C8. For every \<open>N \<ge> 1\<close> the factory made for \<open>N\<close> yields on its successive
  calls the lowercase hexadecimal strings of 0, 1, 2, ..., zero-padded to the width
  \<open>W = hexLog N\<close>; \<open>W\<close> is the least width that can express \<open>N\<close>
  (\<open>16 ^ (W - 1) \<le> N < 16 ^ W\<close>, that is \<open>W = \<lceil>log\<^sub>1\<^sub>6 (N + 1)\<rceil>\<close>, and
  \<open>W \<ge> 1\<close>); each of the first \<open>N\<close> keys has exactly \<open>W\<close> characters and
  denotes its index, so these keys are dense over \<open>[0, N)\<close> and pairwise distinct.
\<close>

theorem keyFactory_keys:
  assumes N: "1 \<le> N"
  shows "nextKeys m (keyFactory (int N)) = map (fmt_0x (nat (hexLog (int N)))) [0..<m]
    \<and> (\<forall>i. hexval (fmt_0x (nat (hexLog (int N))) i) = i
          \<and> set (fmt_0x (nat (hexLog (int N))) i) \<subseteq> set ''0123456789abcdef'')
    \<and> (\<forall>i<N. length (nextKeys N (keyFactory (int N)) ! i) = nat (hexLog (int N))
          \<and> hexval (nextKeys N (keyFactory (int N)) ! i) = i)
    \<and> distinct (nextKeys N (keyFactory (int N)))
    \<and> 1 \<le> nat (hexLog (int N))
    \<and> 16 ^ (nat (hexLog (int N)) - 1) \<le> N \<and> N < 16 ^ nat (hexLog (int N))
    \<and> hexLog (int N) = \<lceil>log 16 (real N + 1)\<rceil>"
proof -
  define W where "W = nat (hexLog (int N))"
  have W1: "1 \<le> W" using hexLog_pos[of "int N"] by (simp add: W_def)
  have b: "N < 16 ^ W" "16 ^ (W - 1) \<le> N" using hexLog_nat_bounds[of N] N by (auto simp: W_def)
  have keys: "nextKeys j (keyFactory (int N)) = map (fmt_0x W) [0..<j]" for j
    by (simp add: nextKeys_eq keyFactory_def W_def)
  have len: "length (nextKeys N (keyFactory (int N)) ! i) = W" if "i < N" for i
  proof -
    have "i < 16 ^ W" using that b(1) by simp
    then show ?thesis using that W1 by (simp add: keys fmt_0x_length)
  qed
  have val: "hexval (nextKeys N (keyFactory (int N)) ! i) = i" if "i < N" for i
    using that by (simp add: keys hexval_fmt_0x)
  have "inj_on (fmt_0x W) (set [0..<N])"
    by (rule inj_on_inverseI[where g = hexval]) (simp add: hexval_fmt_0x)
  then have dist: "distinct (nextKeys N (keyFactory (int N)))"
    by (simp add: keys distinct_map)
  have "\<lceil>log (real (16::nat)) (real (N + 1))\<rceil> = int (W - 1) + 1"
    by (rule ceiling_log_nat_eq_if) (use b W1 in auto)
  then have lg: "hexLog (int N) = \<lceil>log 16 (real N + 1)\<rceil>"
    using W1 hexLog_pos[of "int N"] by (simp add: W_def add.commute)
  show ?thesis
    using keys len val dist W1 b lg hexval_fmt_0x fmt_0x_chars unfolding W_def by blast
qed

theorem keyFactory_keys_witness:
  "(1::nat) \<le> 17
   \<and> nextKeys 17 (keyFactory (int 17)) ! 16 = ''10''
   \<and> length (nextKeys 17 (keyFactory (int 17)) ! 16) = nat (hexLog (int 17))
   \<and> hexval (nextKeys 17 (keyFactory (int 17)) ! 16) = 16
   \<and> distinct (nextKeys 17 (keyFactory (int 17)))
   \<and> hexLog (int 17) = 2"
proof -
  have h: "(1::nat) \<le> 17" by simp
  note t = keyFactory_keys[OF h, of 17]
  have e0: "hexLog 17 = 2" by code_simp
  have e1: "fmt_0x 2 16 = ''10''" by code_simp
  have e: "nextKeys 17 (keyFactory (int 17)) ! 16 = ''10''"
    by (simp add: nextKeys_eq keyFactory_def e0 e1 del: upt_Suc)
  have l: "hexLog (int 17) = 2" using e0 by simp
  from t have a: "\<forall>i<17. length (nextKeys 17 (keyFactory (int 17)) ! i) = nat (hexLog (int 17))
          \<and> hexval (nextKeys 17 (keyFactory (int 17)) ! i) = i" by blast
  have b: "(16::nat) < 17" by simp
  from a b have c: "length (nextKeys 17 (keyFactory (int 17)) ! 16) = nat (hexLog (int 17))
          \<and> hexval (nextKeys 17 (keyFactory (int 17)) ! 16) = 16" by blast
  from t have d: "distinct (nextKeys 17 (keyFactory (int 17)))" by blast
  show ?thesis using h e l c d by blast
qed

section \<open>File records (package file)\<close>

text \<open>
  \<^verbatim>\<open>file.File\<close>: \<^verbatim>\<open>Size\<close> is an \<^verbatim>\<open>int64\<close>, \<^verbatim>\<open>Mode\<close> an
  \<^verbatim>\<open>os.FileMode\<close> (\<^verbatim>\<open>uint32\<close>), \<^verbatim>\<open>ModTime\<close> an instant (nanoseconds),
  \<^verbatim>\<open>SHA1\<close> a 20-byte array. The mode bits are those of Go's package \<^verbatim>\<open>os\<close>.
\<close>

type_synonym byte = "8 word"

record File =
  Root :: string
  Name :: string
  Size :: int
  Mode :: "32 word"
  ModTime :: int
  UID :: int
  GID :: int
  SHA1 :: "byte list"

definition ModeDir :: "32 word" where "ModeDir = push_bit 31 1"
definition ModeSymlink :: "32 word" where "ModeSymlink = push_bit 27 1"
definition ModeDevice :: "32 word" where "ModeDevice = push_bit 26 1"
definition ModeNamedPipe :: "32 word" where "ModeNamedPipe = push_bit 25 1"
definition ModeSocket :: "32 word" where "ModeSocket = push_bit 24 1"
definition ModeCharDevice :: "32 word" where "ModeCharDevice = push_bit 21 1"
definition ModeIrregular :: "32 word" where "ModeIrregular = push_bit 19 1"
definition ModeType :: "32 word" where
  "ModeType = ModeDir OR ModeSymlink OR ModeNamedPipe OR ModeSocket OR ModeDevice
     OR ModeCharDevice OR ModeIrregular"

definition IsDir :: "File \<Rightarrow> bool" where
  "IsDir f = (Mode f AND ModeDir \<noteq> 0)"

definition IsRegular :: "File \<Rightarrow> bool" where
  "IsRegular f = (Mode f AND ModeType = 0)"

definition IsSymlink :: "File \<Rightarrow> bool" where
  "IsSymlink f = (Mode f AND ModeSymlink \<noteq> 0)"

definition HasChecksum :: "File \<Rightarrow> bool" where
  "HasChecksum f = (SHA1 f \<noteq> replicate 20 0)"

section \<open>Bundling (backup package)\<close>

text \<open>
  \<^verbatim>\<open>currBytes\<close> is an \<^verbatim>\<open>int64\<close>; \<open>int64\<close> is the wrap-around of
  \<^verbatim>\<open>currBytes += f.Size\<close>. The two constants are \<^verbatim>\<open>1000 << 6\<close> and
  \<^verbatim>\<open>1000 << 10\<close>.
\<close>

definition int64 :: "int \<Rightarrow> int" where
  "int64 x = (x + 2 ^ 63) mod 2 ^ 64 - 2 ^ 63"

definition c_BUNDLE_LIMIT_SIZE :: int where "c_BUNDLE_LIMIT_SIZE = 1000 * 2 ^ 6"
definition c_BUNDLE_MAX_SIZE :: int where "c_BUNDLE_MAX_SIZE = 1000 * 2 ^ 10"

text \<open>
  \<^verbatim>\<open>bundleSmallFiles\<close>: the local variables of the function are the state of the two
  nested loops; \<^verbatim>\<open>nextBundle\<close> is its closure, \<open>bundleFile\<close> the body of the inner
  loop and \<open>bundleGroup\<close> the body of the outer one.
\<close>

record bundler =
  out :: "File list list"
  currBytes :: int
  currBundle :: "File list"
  dirBundle :: "File list"

definition nextBundle :: "bundler \<Rightarrow> bundler" where
  "nextBundle st =
     (if length (currBundle st) > 0
      then st \<lparr> out := out st @ [currBundle st], currBundle := [], currBytes := 0 \<rparr>
      else st)"

definition bundleFile :: "bundler \<Rightarrow> File \<Rightarrow> bundler" where
  "bundleFile st f =
     (if IsDir f then st \<lparr> dirBundle := dirBundle st @ [f] \<rparr>
      else
        let st1 = (if Size f > c_BUNDLE_LIMIT_SIZE then nextBundle st else st);
            st2 = (if currBytes st1 > c_BUNDLE_MAX_SIZE then nextBundle st1 else st1)
        in st2 \<lparr> currBundle := currBundle st2 @ [f],
                 currBytes := int64 (currBytes st2 + Size f) \<rparr>)"

definition bundleGroup :: "bundler \<Rightarrow> File list \<Rightarrow> bundler" where
  "bundleGroup st bundle = nextBundle (foldl bundleFile st bundle)"

definition bundleSmallFiles :: "File list list \<Rightarrow> File list list" where
  "bundleSmallFiles inp =
     (let st = foldl bundleGroup \<lparr> out = [], currBytes = 0, currBundle = [], dirBundle = [] \<rparr> inp
      in if length (dirBundle st) > 0 then out st @ [dirBundle st] else out st)"


subsection \<open>What the running-sum policy guarantees\<close>

definition tot :: "File list \<Rightarrow> int" where
  "tot b = sum_list (map Size b)"

definition good :: "File list \<Rightarrow> bool" where
  "good b \<longleftrightarrow> b \<noteq> [] \<and> tot (butlast b) \<le> c_BUNDLE_MAX_SIZE
     \<and> (\<forall>f\<in>set (tl b). Size f \<le> c_BUNDLE_LIMIT_SIZE)
     \<and> (\<forall>f\<in>set b. \<not> IsDir f \<and> 0 \<le> Size f)"

definition binv :: "bundler \<Rightarrow> bool" where
  "binv st \<longleftrightarrow> (currBundle st = [] \<longrightarrow> currBytes st = 0)
     \<and> (currBundle st \<noteq> [] \<longrightarrow> currBytes st = tot (currBundle st) \<and> good (currBundle st))
     \<and> (\<forall>b\<in>set (out st). good b)"

lemma int64_id: "- (2 ^ 63) \<le> x \<Longrightarrow> x < 2 ^ 63 \<Longrightarrow> int64 x = x"
  by (simp add: int64_def)

lemma tot_append [simp]: "tot (a @ b) = tot a + tot b"
  by (simp add: tot_def)

lemma tot_simps [simp]: "tot [] = 0" "tot (f # fs) = Size f + tot fs"
  by (simp_all add: tot_def)

lemma tot_nonneg: "\<forall>f\<in>set b. 0 \<le> Size f \<Longrightarrow> 0 \<le> tot b"
  by (induction b) (simp_all add: tot_def)

lemma nextBundle_inv: "binv st \<Longrightarrow> binv (nextBundle st)"
  by (auto simp: binv_def nextBundle_def)

lemma nextBundle_curr [simp]:
  "currBundle (nextBundle st) = []" "dirBundle (nextBundle st) = dirBundle st"
  "concat (out (nextBundle st)) = concat (out st) @ currBundle st"
  by (auto simp: nextBundle_def)

lemma nextBundle_bytes: "binv st \<Longrightarrow> currBytes (nextBundle st) = 0"
  by (auto simp: binv_def nextBundle_def)

lemma add_file_inv:
  assumes inv: "binv st" and nd: "\<not> IsDir f" and sz: "0 \<le> Size f" "Size f < 2 ^ 63"
    and brk: "c_BUNDLE_LIMIT_SIZE < Size f \<longrightarrow> currBundle st = []"
    and mx: "currBytes st \<le> c_BUNDLE_MAX_SIZE"
  shows "binv (st \<lparr> currBundle := currBundle st @ [f],
                 currBytes := int64 (currBytes st + Size f) \<rparr>)"
proof (cases "currBundle st = []")
  case True
  then have "currBytes st = 0" using inv by (simp add: binv_def)
  then show ?thesis using True inv nd sz
    by (simp add: binv_def good_def int64_id c_BUNDLE_MAX_SIZE_def)
next
  case False
  then have cb: "currBytes st = tot (currBundle st)" "good (currBundle st)"
    using inv by (auto simp: binv_def)
  have small: "Size f \<le> c_BUNDLE_LIMIT_SIZE" using brk False by auto
  have "0 \<le> tot (currBundle st)" using cb(2) by (simp add: good_def tot_nonneg)
  then have "currBytes st + Size f < 2 ^ 63" "- (2 ^ 63) \<le> currBytes st + Size f"
    using small mx sz cb(1)
    by (simp_all add: c_BUNDLE_LIMIT_SIZE_def c_BUNDLE_MAX_SIZE_def)
  then have e: "int64 (currBytes st + Size f) = currBytes st + Size f" by (simp add: int64_id)
  have "good (currBundle st @ [f])"
    using cb mx small nd sz False by (auto simp: good_def)
  then show ?thesis using inv cb e by (simp add: binv_def)
qed

lemma bundleFile_inv:
  assumes inv: "binv st" and sz: "0 \<le> Size f" "Size f < 2 ^ 63"
  shows "binv (bundleFile st f)"
proof (cases "IsDir f")
  case True
  then show ?thesis using inv by (simp add: bundleFile_def binv_def)
next
  case False
  define st1 where "st1 = (if Size f > c_BUNDLE_LIMIT_SIZE then nextBundle st else st)"
  define st2 where "st2 = (if currBytes st1 > c_BUNDLE_MAX_SIZE then nextBundle st1 else st1)"
  have i1: "binv st1" using inv by (simp add: st1_def nextBundle_inv)
  have i2: "binv st2" using i1 by (simp add: st2_def nextBundle_inv)
  have b1: "c_BUNDLE_LIMIT_SIZE < Size f \<longrightarrow> currBundle st1 = []" by (simp add: st1_def)
  have b2: "c_BUNDLE_LIMIT_SIZE < Size f \<longrightarrow> currBundle st2 = []" using b1 by (simp add: st2_def)
  have m2: "currBytes st2 \<le> c_BUNDLE_MAX_SIZE"
    using i1 by (simp add: st2_def nextBundle_bytes c_BUNDLE_MAX_SIZE_def)
  have "bundleFile st f = st2 \<lparr> currBundle := currBundle st2 @ [f],
                 currBytes := int64 (currBytes st2 + Size f) \<rparr>"
    using False by (simp add: bundleFile_def st1_def st2_def Let_def)
  then show ?thesis using add_file_inv[OF i2 False sz b2 m2] by simp
qed

lemma bundleFile_content:
  "concat (out (bundleFile st f)) @ currBundle (bundleFile st f)
     = concat (out st) @ currBundle st @ filter (\<lambda>f. \<not> IsDir f) [f]
   \<and> dirBundle (bundleFile st f) = dirBundle st @ filter IsDir [f]"
  by (simp add: bundleFile_def Let_def)

lemma foldl_bundleFile:
  assumes "binv st" "\<forall>f\<in>set fs. 0 \<le> Size f \<and> Size f < 2 ^ 63"
  shows "binv (foldl bundleFile st fs)
    \<and> concat (out (foldl bundleFile st fs)) @ currBundle (foldl bundleFile st fs)
       = concat (out st) @ currBundle st @ filter (\<lambda>f. \<not> IsDir f) fs
    \<and> dirBundle (foldl bundleFile st fs) = dirBundle st @ filter IsDir fs"
  using assms
proof (induction fs arbitrary: st)
  case Nil
  then show ?case by simp
next
  case (Cons f fs)
  have i: "binv (bundleFile st f)" using Cons.prems by (simp add: bundleFile_inv)
  have r: "\<forall>f\<in>set fs. 0 \<le> Size f \<and> Size f < 2 ^ 63" using Cons.prems by simp
  from Cons.IH[OF i r] bundleFile_content[of st f] show ?case by simp
qed

lemma bundleGroup_props:
  assumes "binv st" "currBundle st = []" "\<forall>f\<in>set fs. 0 \<le> Size f \<and> Size f < 2 ^ 63"
  shows "binv (bundleGroup st fs) \<and> currBundle (bundleGroup st fs) = []
    \<and> concat (out (bundleGroup st fs)) = concat (out st) @ filter (\<lambda>f. \<not> IsDir f) fs
    \<and> dirBundle (bundleGroup st fs) = dirBundle st @ filter IsDir fs"
  using foldl_bundleFile[OF assms(1,3)] assms(2)
  by (simp add: bundleGroup_def nextBundle_inv)

lemma foldl_bundleGroup:
  assumes "binv st" "currBundle st = []" "\<forall>f\<in>set (concat inp). 0 \<le> Size f \<and> Size f < 2 ^ 63"
  shows "binv (foldl bundleGroup st inp) \<and> currBundle (foldl bundleGroup st inp) = []
    \<and> concat (out (foldl bundleGroup st inp)) = concat (out st) @ filter (\<lambda>f. \<not> IsDir f) (concat inp)
    \<and> dirBundle (foldl bundleGroup st inp) = dirBundle st @ filter IsDir (concat inp)"
  using assms
proof (induction inp arbitrary: st)
  case Nil
  then show ?case by simp
next
  case (Cons fs inp)
  have a: "\<forall>f\<in>set fs. 0 \<le> Size f \<and> Size f < 2 ^ 63"
    and b: "\<forall>f\<in>set (concat inp). 0 \<le> Size f \<and> Size f < 2 ^ 63"
    using Cons.prems(3) by auto
  note g = bundleGroup_props[OF Cons.prems(1,2) a]
  from g have g1: "binv (bundleGroup st fs)" and g2: "currBundle (bundleGroup st fs) = []" by auto
  from Cons.IH[OF g1 g2 b] g show ?case by simp
qed

lemma good_bound:
  assumes "good b" "\<forall>f\<in>set b. Size f \<le> c_BUNDLE_LIMIT_SIZE"
  shows "tot b \<le> 1088000"
proof -
  from assms(1) have ne: "b \<noteq> []" by (simp add: good_def)
  then have b: "b = butlast b @ [last b]" by simp
  have "tot b = tot (butlast b) + Size (last b)" by (subst b) simp
  moreover have "Size (last b) \<le> c_BUNDLE_LIMIT_SIZE" using assms(2) ne by simp
  moreover have "tot (butlast b) \<le> c_BUNDLE_MAX_SIZE" using assms(1) by (simp add: good_def)
  ultimately show ?thesis by (simp add: c_BUNDLE_LIMIT_SIZE_def c_BUNDLE_MAX_SIZE_def)
qed

text \<open>
  What the code does guarantee. For every input whose file sizes are non-negative
  \<^verbatim>\<open>int64\<close> values, \<^verbatim>\<open>bundleSmallFiles\<close> returns the non-directory bundles \<open>bs\<close>
  followed by the directories bundle when there is a directory, so the directories bundle is
  emitted last. The bundles \<open>bs\<close> hold the non-directory files in input order. The test
  \<^verbatim>\<open>currBytes > c_BUNDLE_MAX_SIZE\<close> looks at the total before the next file is added, so
  it bounds every bundle without its last file only: that part totals at most 1024000 bytes,
  and the whole bundle at most 1088000 bytes when each of its files is at most
  \<^verbatim>\<open>c_BUNDLE_LIMIT_SIZE\<close>. A file larger than \<^verbatim>\<open>c_BUNDLE_LIMIT_SIZE\<close> only ever stands
  first in its bundle.
\<close>

theorem bundleSmallFiles_policy:
  assumes sizes: "\<forall>f\<in>set (concat inp). 0 \<le> Size f \<and> Size f < 2 ^ 63"
  shows "\<exists>bs. bundleSmallFiles inp
           = bs @ (if filter IsDir (concat inp) = [] then [] else [filter IsDir (concat inp)])
     \<and> concat bs = filter (\<lambda>f. \<not> IsDir f) (concat inp)
     \<and> (\<forall>b\<in>set bs. b \<noteq> []
           \<and> tot (butlast b) \<le> c_BUNDLE_MAX_SIZE
           \<and> (\<forall>f\<in>set (tl b). Size f \<le> c_BUNDLE_LIMIT_SIZE)
           \<and> ((\<forall>f\<in>set b. Size f \<le> c_BUNDLE_LIMIT_SIZE) \<longrightarrow> tot b \<le> 1088000))"
proof -
  define st0 where "st0 = \<lparr> out = [], currBytes = 0, currBundle = [], dirBundle = [] \<rparr>"
  define st where "st = foldl bundleGroup st0 inp"
  have "binv st0" "currBundle st0 = []" by (simp_all add: st0_def binv_def)
  from foldl_bundleGroup[OF this sizes]
  have p: "binv st" "concat (out st) = filter (\<lambda>f. \<not> IsDir f) (concat inp)"
    "dirBundle st = filter IsDir (concat inp)"
    by (simp_all add: st_def st0_def)
  have g: "\<forall>b\<in>set (out st). good b" using p(1) by (simp add: binv_def)
  have r: "bundleSmallFiles inp
      = out st @ (if filter IsDir (concat inp) = [] then [] else [filter IsDir (concat inp)])"
    using p(3) by (simp add: bundleSmallFiles_def st_def st0_def Let_def)
  have "\<forall>b\<in>set (out st). b \<noteq> []
           \<and> tot (butlast b) \<le> c_BUNDLE_MAX_SIZE
           \<and> (\<forall>f\<in>set (tl b). Size f \<le> c_BUNDLE_LIMIT_SIZE)
           \<and> ((\<forall>f\<in>set b. Size f \<le> c_BUNDLE_LIMIT_SIZE) \<longrightarrow> tot b \<le> 1088000)"
    using g good_bound by (auto simp: good_def)
  with r p(2) show ?thesis by blast
qed


text \<open>Test fixtures in the style of \<^verbatim>\<open>mockFile\<close> of the repository's tests.\<close>

definition mockFile :: "string \<Rightarrow> int \<Rightarrow> File" where
  "mockFile nm sz = \<lparr> Root = ''/'', Name = nm, Size = sz, Mode = 420, ModTime = 0,
     UID = 0, GID = 0, SHA1 = replicate 20 0 \<rparr>"

definition mockDir :: "string \<Rightarrow> File" where
  "mockDir nm = (mockFile nm 4096) \<lparr> Mode := ModeDir OR 493 \<rparr>"

lemma mockFile_simps [simp]:
  "Size (mockFile nm sz) = sz" "\<not> IsDir (mockFile nm sz)" "Name (mockFile nm sz) = nm"
  by (simp_all add: mockFile_def IsDir_def ModeDir_def)

lemma mockDir_simps [simp]:
  "Size (mockDir nm) = 4096" "IsDir (mockDir nm)"
  by (simp_all add: mockDir_def mockFile_def IsDir_def ModeDir_def)

text \<open>
  Claim C4 at seventeen files of 64000 bytes each (none larger than
  \<^verbatim>\<open>c_BUNDLE_LIMIT_SIZE\<close>): they are emitted as one bundle of 1088000 bytes, more than
  \<^verbatim>\<open>c_BUNDLE_MAX_SIZE\<close>, which the source declares with the comment
  \<^verbatim>\<open>bundles are max. 1MB\<close>. The running total of the first sixteen files, 1024000, is
  not greater than the maximum, and the test is made before the seventeenth is added, not on
  the total it would give.
\<close>

theorem bundleSmallFiles_exceeds_max:
  "bundleSmallFiles [map (\<lambda>i. mockFile (fmt_x i) 64000) [0..<17]]
     = [map (\<lambda>i. mockFile (fmt_x i) 64000) [0..<17]]
   \<and> list_all (\<lambda>f. Size f \<le> c_BUNDLE_LIMIT_SIZE) (map (\<lambda>i. mockFile (fmt_x i) 64000) [0..<17])
   \<and> tot (map (\<lambda>i. mockFile (fmt_x i) 64000) [0..<17]) = 1088000
   \<and> c_BUNDLE_MAX_SIZE < 1088000"
  by (simp add: bundleSmallFiles_def bundleGroup_def bundleFile_def nextBundle_def Let_def
      upt_conv_Cons c_BUNDLE_LIMIT_SIZE_def c_BUNDLE_MAX_SIZE_def int64_def)

theorem bundleSmallFiles_policy_witness:
  "\<exists>bs. bundleSmallFiles [[mockFile ''a'' 10, mockDir ''d'', mockFile ''b'' 20], [mockFile ''c'' 70000]]
           = bs @ (if filter IsDir (concat [[mockFile ''a'' 10, mockDir ''d'', mockFile ''b'' 20], [mockFile ''c'' 70000]]) = [] then []
                   else [filter IsDir (concat [[mockFile ''a'' 10, mockDir ''d'', mockFile ''b'' 20], [mockFile ''c'' 70000]])])
     \<and> concat bs = filter (\<lambda>f. \<not> IsDir f) (concat [[mockFile ''a'' 10, mockDir ''d'', mockFile ''b'' 20], [mockFile ''c'' 70000]])
     \<and> (\<forall>b\<in>set bs. b \<noteq> []
           \<and> tot (butlast b) \<le> c_BUNDLE_MAX_SIZE
           \<and> (\<forall>f\<in>set (tl b). Size f \<le> c_BUNDLE_LIMIT_SIZE)
           \<and> ((\<forall>f\<in>set b. Size f \<le> c_BUNDLE_LIMIT_SIZE) \<longrightarrow> tot b \<le> 1088000))"
  by (rule bundleSmallFiles_policy) simp

section \<open>Store metadata (store/metadata.go, util.ParseVersionJSON)\<close>

text \<open>
  A JSON document as \<^verbatim>\<open>encoding/json\<close> sees it. \<open>JInt\<close> is a number literal
  written as an integer, \<open>JNumber\<close> any other number literal; an object keeps its
  members in document order. A byte string that is not valid JSON is \<open>None\<close>.
\<close>

datatype json =
    JNull
  | JBool bool
  | JInt int
  | JNumber string
  | JStr string
  | JArr "json list"
  | JObj "(string \<times> json) list"

text \<open>
  \<^verbatim>\<open>ParseVersionJSON\<close> unmarshals into \<^verbatim>\<open>struct { Version int `json:"version"` }\<close>.
  \<^verbatim>\<open>json.Unmarshal\<close> visits the members in order; a member whose key is \<^verbatim>\<open>version\<close>
  (or equal to it under the decoder's case folding, the parameter \<open>eqFold\<close>) is stored
  into the field: \<^verbatim>\<open>null\<close> leaves it alone, an integer that fits \<^verbatim>\<open>int\<close> sets it,
  anything else is recorded as an error and decoding goes on. A document with no such member
  leaves the field at its zero value and reports no error.
\<close>

definition fitsInt :: "int \<Rightarrow> bool" where
  "fitsInt n \<longleftrightarrow> - (2 ^ 63) \<le> n \<and> n < 2 ^ 63"

fun decodeVersion :: "(string \<Rightarrow> string \<Rightarrow> bool) \<Rightarrow> (string \<times> json) list \<Rightarrow> int \<times> bool \<Rightarrow> int \<times> bool" where
  "decodeVersion eqFold [] acc = acc"
| "decodeVersion eqFold ((k, v) # kvs) (ver, failed) =
     (if k = ''version'' \<or> eqFold k ''version''
      then (case v of
              JNull \<Rightarrow> decodeVersion eqFold kvs (ver, failed)
            | JInt n \<Rightarrow> (if fitsInt n then decodeVersion eqFold kvs (n, failed)
                        else decodeVersion eqFold kvs (ver, True))
            | _ \<Rightarrow> decodeVersion eqFold kvs (ver, True))
      else decodeVersion eqFold kvs (ver, failed))"

definition ParseVersionJSON :: "(string \<Rightarrow> string \<Rightarrow> bool) \<Rightarrow> json option \<Rightarrow> int \<times> bool" where
  "ParseVersionJSON eqFold raw =
     (case raw of
        None \<Rightarrow> (- 1, False)
      | Some JNull \<Rightarrow> (0, True)
      | Some (JObj kvs) \<Rightarrow>
          (case decodeVersion eqFold kvs (0, False) of
             (ver, failed) \<Rightarrow> if failed then (- 1, False) else (ver, True))
      | Some _ \<Rightarrow> (- 1, False))"

text \<open>
  \<^verbatim>\<open>Store.getStoreMetadata\<close>. Of the store only the cached metadata and the storage
  layer's answer to \<^verbatim>\<open>GetReader\<close> followed by \<^verbatim>\<open>ReadAll\<close> matter here. The full
  decoding of the header, \<^verbatim>\<open>json.Unmarshal(data, &md)\<close>, is the parameter \<open>unmarshal\<close>.
\<close>

datatype store_error = ErrMalformedMetadata | ErrBadVersion | ErrMissingMetadata | LayerError string

record storeMetadata =
  mdVersion :: int
  StoreFormat :: int
  Salt :: "byte list"
  UserData :: "(string \<times> json) list"

record Store =
  meta :: "storeMetadata option"
  layer :: "string \<Rightarrow> store_error + json option"

definition c_METADATA_KEY :: string where "c_METADATA_KEY = ''metadata''"

definition getStoreMetadata ::
  "(string \<Rightarrow> string \<Rightarrow> bool) \<Rightarrow> (json option \<Rightarrow> storeMetadata option) \<Rightarrow> Store
     \<Rightarrow> (store_error + storeMetadata) \<times> Store" where
  "getStoreMetadata eqFold unmarshal s =
     (case meta s of
        Some md \<Rightarrow> (Inr md, s)
      | None \<Rightarrow>
          (case layer s c_METADATA_KEY of
             Inl e \<Rightarrow> (Inl e, s)
           | Inr data \<Rightarrow>
               (case ParseVersionJSON eqFold data of
                  (ver, ok) \<Rightarrow>
                    if ok then
                      (if ver = 1 then
                         (case unmarshal data of
                            Some md \<Rightarrow> (Inr md, s \<lparr> meta := Some md \<rparr>)
                          | None \<Rightarrow> (Inl ErrMalformedMetadata, s))
                       else (Inl ErrBadVersion, s))
                    else (Inl ErrMalformedMetadata, s))))"

text \<open>
  Claim C6 at the input \<^verbatim>\<open>{}\<close>: the metadata object parses and has no
  \<^verbatim>\<open>version\<close> member; \<^verbatim>\<open>ParseVersionJSON\<close> answers \<^verbatim>\<open>(0, true)\<close> and
  \<^verbatim>\<open>getStoreMetadata\<close> fails with \<^verbatim>\<open>ErrBadVersion\<close>, not with
  \<^verbatim>\<open>ErrMalformedMetadata\<close>.
\<close>

theorem getStoreMetadata_version_absent:
  "fst (getStoreMetadata eqFold unmarshal \<lparr> meta = None, layer = (\<lambda>k. Inr (Some (JObj []))) \<rparr>)
     = Inl ErrBadVersion"
  by (simp add: getStoreMetadata_def ParseVersionJSON_def)

text \<open>
  The other outcomes: bytes that are not JSON give \<^verbatim>\<open>ErrMalformedMetadata\<close>; any
  object without a version member, and any version other than 1, give
  \<^verbatim>\<open>ErrBadVersion\<close>.
\<close>

lemma decodeVersion_nomatch:
  "\<forall>(k, v)\<in>set kvs. \<not> (k = ''version'' \<or> eqFold k ''version'') \<Longrightarrow> decodeVersion eqFold kvs acc = acc"
  by (induction kvs arbitrary: acc) (auto split: prod.splits)

lemma getStoreMetadata_outcomes:
  assumes "meta s = None" "layer s c_METADATA_KEY = Inr data"
  shows "(data = None \<longrightarrow> fst (getStoreMetadata eqFold unmarshal s) = Inl ErrMalformedMetadata)"
    and "(\<forall>kvs. data = Some (JObj kvs) \<and> (\<forall>(k, v)\<in>set kvs. \<not> (k = ''version'' \<or> eqFold k ''version''))
           \<longrightarrow> fst (getStoreMetadata eqFold unmarshal s) = Inl ErrBadVersion)"
    and "(\<forall>ver. ParseVersionJSON eqFold data = (ver, True) \<and> ver \<noteq> 1
           \<longrightarrow> fst (getStoreMetadata eqFold unmarshal s) = Inl ErrBadVersion)"
  using assms
  by (auto simp: getStoreMetadata_def ParseVersionJSON_def decodeVersion_nomatch)

section \<open>The manifest (backup/manifest.go)\<close>

text \<open>
  A manifest entry embeds a \<^verbatim>\<open>file.File\<close> (field \<open>eFile\<close>) and adds the set and the
  parts. \<^verbatim>\<open>Manifest.Entries\<close> is a slice of pointers and \<^verbatim>\<open>pathMap\<close> a map from
  paths to pointers, and the code relies on both naming the same objects; so the model has
  an explicit store: a pointer is an address, \<open>heap\<close> gives the entry object at an
  address, and \<open>nextPtr\<close> is the address the next \<^verbatim>\<open>&ManifestEntry{...}\<close> receives.
\<close>

record ManifestEntryPart =
  Key :: string
  Range :: "int \<times> int"

record ManifestEntry =
  eFile :: File
  eSet :: string
  Parts :: "ManifestEntryPart list"

type_synonym ptr = nat

record Manifest =
  Version :: int
  LastSet :: string
  Created :: int
  Updated :: int
  Entries :: "ptr list"
  pathMap :: "string \<Rightarrow> ptr option"
  heap :: "ptr \<Rightarrow> ManifestEntry"
  nextPtr :: ptr

text \<open>
  \<^verbatim>\<open>File.Path\<close> is \<^verbatim>\<open>filepath.Join(f.Root, f.Name)\<close>; the library function is the
  parameter \<open>Join\<close> of everything that looks at paths.
\<close>

definition Path :: "(string \<Rightarrow> string \<Rightarrow> string) \<Rightarrow> File \<Rightarrow> string" where
  "Path Join f = Join (Root f) (Name f)"

definition entryPath :: "(string \<Rightarrow> string \<Rightarrow> string) \<Rightarrow> Manifest \<Rightarrow> ptr \<Rightarrow> string" where
  "entryPath Join m p = Path Join (eFile (heap m p))"

definition Has :: "(string \<Rightarrow> string \<Rightarrow> string) \<Rightarrow> Manifest \<Rightarrow> File \<Rightarrow> bool" where
  "Has Join m f = (pathMap m (Path Join f) \<noteq> None)"

text \<open>
  \<^verbatim>\<open>removeEntry\<close> overwrites the object to delete with the contents of the last entry,
  points the last entry's path at that object, truncates the slice and deletes the old
  path. Indexing an empty \<^verbatim>\<open>Entries\<close> panics: the result \<open>None\<close>.
\<close>

definition removeEntry :: "(string \<Rightarrow> string \<Rightarrow> string) \<Rightarrow> Manifest \<Rightarrow> ptr \<Rightarrow> Manifest option" where
  "removeEntry Join m p =
     (let oldPath = entryPath Join m p in
      if Entries m = [] then None
      else
        let lastEntry = last (Entries m);
            m1 = m \<lparr> heap := (heap m) (p := heap m lastEntry) \<rparr>;
            m2 = m1 \<lparr> pathMap := (pathMap m1) (entryPath Join m1 lastEntry \<mapsto> p) \<rparr>;
            m3 = m2 \<lparr> Entries := butlast (Entries m2) \<rparr>
        in Some (m3 \<lparr> pathMap := (pathMap m3) (oldPath := None) \<rparr>))"

definition Remove :: "(string \<Rightarrow> string \<Rightarrow> string) \<Rightarrow> Manifest \<Rightarrow> File \<Rightarrow> (bool \<times> Manifest) option" where
  "Remove Join m f =
     (case pathMap m (Path Join f) of
        None \<Rightarrow> Some (False, m)
      | Some p \<Rightarrow> map_option (Pair True) (removeEntry Join m p))"

definition buildPathMap :: "(string \<Rightarrow> string \<Rightarrow> string) \<Rightarrow> Manifest \<Rightarrow> Manifest" where
  "buildPathMap Join m =
     m \<lparr> pathMap := foldl (\<lambda>pm p. pm (entryPath Join m p \<mapsto> p)) Map.empty (Entries m) \<rparr>"

text \<open>
  \<^verbatim>\<open>file.ChecksumFilesFS\<close>: when no regular file or symlink lacks a checksum it returns
  at once; otherwise it hashes every regular file and symlink of every group, in place.
  What the file system yields as the SHA-1 of a file is the parameter \<open>cksum\<close>: this
  is the pass on a file system where every read succeeds, as \<^verbatim>\<open>Update\<close> needs it to get
  as far as the manifest. A read error ends the process; the pass with read errors is
  \<open>ChecksumFilesFS\<close>, with \<^verbatim>\<open>Compare\<close> below.
\<close>

definition needsHash :: "File \<Rightarrow> bool" where
  "needsHash f \<longleftrightarrow> (IsRegular f \<or> IsSymlink f) \<and> \<not> HasChecksum f"

definition rehash :: "(File \<Rightarrow> byte list) \<Rightarrow> File \<Rightarrow> File" where
  "rehash cksum f = (if IsRegular f \<or> IsSymlink f then f \<lparr> SHA1 := cksum f \<rparr> else f)"

definition ChecksumFiles :: "(File \<Rightarrow> byte list) \<Rightarrow> File list list \<Rightarrow> File list list" where
  "ChecksumFiles cksum groups =
     (if \<not> list_ex needsHash (concat groups) then groups
      else map (map (rehash cksum)) groups)"

text \<open>
  The bundling used by \<^verbatim>\<open>Update\<close>. \<^verbatim>\<open>sort.Sort(file.ByPath(bundle))\<close> is not a stable
  sort, so the sorting function is the parameter \<open>srt\<close>.
\<close>

definition makeBundle :: "File list \<Rightarrow> File list list" where
  "makeBundle files = (if length files > 0 then [files] else [])"

definition splitBundlesBySizeLimit :: "File list list \<Rightarrow> File list list" where
  "splitBundlesBySizeLimit inp =
     concat (map (\<lambda>bundle.
       [filter (\<lambda>f. \<not> IsDir f \<and> \<not> Size f > c_BUNDLE_LIMIT_SIZE) bundle,
        filter (\<lambda>f. \<not> IsDir f \<and> Size f > c_BUNDLE_LIMIT_SIZE) bundle,
        filter IsDir bundle]) inp)"

definition sortBundlesByPath :: "(File list \<Rightarrow> File list) \<Rightarrow> File list list \<Rightarrow> File list list" where
  "sortBundlesByPath srt bundles = map srt bundles"

definition bundleSmallFilesAcrossPaths :: "(File list \<Rightarrow> File list) \<Rightarrow> File list \<Rightarrow> File list list" where
  "bundleSmallFilesAcrossPaths srt files =
     bundleSmallFiles (sortBundlesByPath srt (splitBundlesBySizeLimit (makeBundle files)))"

text \<open>
  \<^verbatim>\<open>Manifest.Update\<close>. The clock reading \<^verbatim>\<open>time.Now()\<close> is the parameter \<open>now\<close>,
  in nanoseconds since the epoch. \<open>updateFile\<close> is the body of the inner loop: the new
  entry is allocated, and either copied over the object already registered under the path or
  appended and registered.
\<close>

definition manifestKey :: "nat \<Rightarrow> string" where
  "manifestKey t = fmt_0x 16 t"

definition truncateSecond :: "nat \<Rightarrow> int" where
  "truncateSecond t = int (t - t mod 1000000000)"

definition updateFile :: "(string \<Rightarrow> string \<Rightarrow> string) \<Rightarrow> string \<Rightarrow> Manifest \<Rightarrow> File \<Rightarrow> Manifest" where
  "updateFile Join key m f =
     (let parts = (if \<not> IsDir f then [\<lparr> Key = key, Range = (0, 0) \<rparr>] else []);
          newEntry = \<lparr> eFile = f, eSet = LastSet m, Parts = parts \<rparr>;
          newPtr = nextPtr m;
          m1 = m \<lparr> heap := (heap m) (newPtr := newEntry), nextPtr := Suc newPtr \<rparr>
      in case pathMap m1 (Path Join f) of
           Some p \<Rightarrow> m1 \<lparr> heap := (heap m1) (p := heap m1 newPtr) \<rparr>
         | None \<Rightarrow> m1 \<lparr> pathMap := (pathMap m1) (Path Join f \<mapsto> newPtr),
                         Entries := Entries m1 @ [newPtr] \<rparr>)"

definition updateBundle ::
  "(string \<Rightarrow> string \<Rightarrow> string) \<Rightarrow> Manifest \<times> keyFactory_state \<Rightarrow> File list \<Rightarrow> Manifest \<times> keyFactory_state" where
  "updateBundle Join st bundle =
     (case st of (m, kf) \<Rightarrow>
        (case nextKey kf of (key, kf') \<Rightarrow> (foldl (updateFile Join key) m bundle, kf')))"

definition Update ::
  "(string \<Rightarrow> string \<Rightarrow> string) \<Rightarrow> (File \<Rightarrow> byte list) \<Rightarrow> (File list \<Rightarrow> File list) \<Rightarrow> nat
     \<Rightarrow> Manifest \<Rightarrow> File list \<Rightarrow> nat \<times> Manifest" where
  "Update Join cksum srt now m files =
     (let files1 = concat (ChecksumFiles cksum [files]);
          m1 = m \<lparr> LastSet := manifestKey now, Updated := truncateSecond now \<rparr>;
          bundles = bundleSmallFilesAcrossPaths srt files1;
          kf = keyFactory (int (length bundles))
      in (now, fst (foldl (updateBundle Join) (m1, kf) bundles)))"

definition emptyManifest :: Manifest where
  "emptyManifest = \<lparr> Version = 0, LastSet = [], Created = 0, Updated = 0, Entries = [],
     pathMap = Map.empty, heap = (\<lambda>p. \<lparr> eFile = mockFile [] 0, eSet = [], Parts = [] \<rparr>), nextPtr = 0 \<rparr>"

definition NewManifest ::
  "(string \<Rightarrow> string \<Rightarrow> string) \<Rightarrow> (File \<Rightarrow> byte list) \<Rightarrow> (File list \<Rightarrow> File list) \<Rightarrow> nat
     \<Rightarrow> File list \<Rightarrow> Manifest" where
  "NewManifest Join cksum srt now files =
     (case Update Join cksum srt now emptyManifest files of
        (t, m) \<Rightarrow> m \<lparr> Created := truncateSecond t \<rparr>)"

text \<open>
  \<^verbatim>\<open>LatestEntries\<close> builds a Go map from object keys to slices of entry pointers; here an
  association list in order of first insertion.
\<close>

definition LatestEntries_add :: "string \<Rightarrow> ptr \<Rightarrow> (string \<times> ptr list) list \<Rightarrow> (string \<times> ptr list) list" where
  "LatestEntries_add obj e entries =
     (if obj \<in> fst ` set entries
      then map (\<lambda>(k, es). if k = obj then (k, es @ [e]) else (k, es)) entries
      else entries @ [(obj, [e])])"

definition LatestEntries :: "Manifest \<Rightarrow> (string \<times> ptr list) list" where
  "LatestEntries m =
     foldl (\<lambda>entries e.
        if eSet (heap m e) = LastSet m
        then foldl (\<lambda>entries p. LatestEntries_add (LastSet m @ ''/'' @ Key p) e entries)
               entries (Parts (heap m e))
        else entries) [] (Entries m)"


subsection \<open>The manifest invariant\<close>

text \<open>
  The three parts of the invariant: at most one entry of \<^verbatim>\<open>Entries\<close> per path; the keys
  of \<^verbatim>\<open>pathMap\<close> are exactly the paths of the entries; and \<^verbatim>\<open>pathMap\<close> maps the
  path of every entry to that very pointer. \<open>allocated\<close> says that the addresses in use
  lie below \<open>nextPtr\<close>, so that an allocation returns a fresh object.
\<close>

definition uniquePaths :: "(string \<Rightarrow> string \<Rightarrow> string) \<Rightarrow> Manifest \<Rightarrow> bool" where
  "uniquePaths Join m \<longleftrightarrow> distinct (map (entryPath Join m) (Entries m))"

definition exactPaths :: "(string \<Rightarrow> string \<Rightarrow> string) \<Rightarrow> Manifest \<Rightarrow> bool" where
  "exactPaths Join m \<longleftrightarrow> dom (pathMap m) = entryPath Join m ` set (Entries m)"

definition sameObject :: "(string \<Rightarrow> string \<Rightarrow> string) \<Rightarrow> Manifest \<Rightarrow> bool" where
  "sameObject Join m \<longleftrightarrow> list_all (\<lambda>p. pathMap m (entryPath Join m p) = Some p) (Entries m)"

definition allocated :: "Manifest \<Rightarrow> bool" where
  "allocated m \<longleftrightarrow> list_all (\<lambda>p. p < nextPtr m) (Entries m)"

definition minv :: "(string \<Rightarrow> string \<Rightarrow> string) \<Rightarrow> Manifest \<Rightarrow> bool" where
  "minv Join m \<longleftrightarrow> uniquePaths Join m \<and> exactPaths Join m \<and> sameObject Join m \<and> allocated m"

lemma minv_iff:
  "minv Join m \<longleftrightarrow>
     distinct (map (entryPath Join m) (Entries m))
     \<and> (\<forall>path p. pathMap m path = Some p \<longleftrightarrow> p \<in> set (Entries m) \<and> entryPath Join m p = path)
     \<and> (\<forall>p\<in>set (Entries m). p < nextPtr m)"
proof
  assume a: "minv Join m"
  then have u: "distinct (map (entryPath Join m) (Entries m))"
    and e: "dom (pathMap m) = entryPath Join m ` set (Entries m)"
    and s: "\<forall>p\<in>set (Entries m). pathMap m (entryPath Join m p) = Some p"
    and al: "\<forall>p\<in>set (Entries m). p < nextPtr m"
    by (simp_all add: minv_def uniquePaths_def exactPaths_def sameObject_def allocated_def list_all_iff)
  have "pathMap m path = Some p \<longleftrightarrow> p \<in> set (Entries m) \<and> entryPath Join m p = path" for path p
  proof
    assume h: "pathMap m path = Some p"
    then have "path \<in> entryPath Join m ` set (Entries m)" using e by auto
    then obtain q where q: "q \<in> set (Entries m)" "entryPath Join m q = path" by auto
    then have "pathMap m path = Some q" using s by auto
    then show "p \<in> set (Entries m) \<and> entryPath Join m p = path" using h q by simp
  next
    assume "p \<in> set (Entries m) \<and> entryPath Join m p = path"
    then show "pathMap m path = Some p" using s by auto
  qed
  then show "distinct (map (entryPath Join m) (Entries m))
     \<and> (\<forall>path p. pathMap m path = Some p \<longleftrightarrow> p \<in> set (Entries m) \<and> entryPath Join m p = path)
     \<and> (\<forall>p\<in>set (Entries m). p < nextPtr m)" using u al by blast
next
  assume b: "distinct (map (entryPath Join m) (Entries m))
     \<and> (\<forall>path p. pathMap m path = Some p \<longleftrightarrow> p \<in> set (Entries m) \<and> entryPath Join m p = path)
     \<and> (\<forall>p\<in>set (Entries m). p < nextPtr m)"
  then have "dom (pathMap m) = entryPath Join m ` set (Entries m)" by (auto simp: dom_def)
  then show "minv Join m" using b
    by (simp add: minv_def uniquePaths_def exactPaths_def sameObject_def allocated_def list_all_iff)
qed

lemma updateFile_minv:
  assumes inv: "minv Join m"
  shows "minv Join (updateFile Join key m f)"
proof -
  from inv have d: "distinct (map (entryPath Join m) (Entries m))"
    and pm: "\<And>path p. pathMap m path = Some p \<longleftrightarrow> p \<in> set (Entries m) \<and> entryPath Join m p = path"
    and al: "\<And>p. p \<in> set (Entries m) \<Longrightarrow> p < nextPtr m"
    by (simp_all add: minv_iff)
  define parts where "parts = (if \<not> IsDir f then [\<lparr> Key = key, Range = (0, 0) \<rparr>] else [])"
  define newEntry where "newEntry = \<lparr> eFile = f, eSet = LastSet m, Parts = parts \<rparr>"
  show ?thesis
  proof (cases "pathMap m (Path Join f)")
    case None
    define m' where "m' = m \<lparr> heap := (heap m) (nextPtr m := newEntry), nextPtr := Suc (nextPtr m),
       pathMap := (pathMap m) (Path Join f \<mapsto> nextPtr m), Entries := Entries m @ [nextPtr m] \<rparr>"
    have eq: "updateFile Join key m f = m'"
      using None by (simp add: updateFile_def Let_def m'_def newEntry_def parts_def)
    have E: "Entries m' = Entries m @ [nextPtr m]"
      "pathMap m' = (pathMap m) (Path Join f \<mapsto> nextPtr m)" "nextPtr m' = Suc (nextPtr m)"
      by (simp_all add: m'_def)
    have fresh: "nextPtr m \<notin> set (Entries m)" using al by auto
    have ep: "entryPath Join m' p = entryPath Join m p" if "p \<in> set (Entries m)" for p
    proof -
      have "p \<noteq> nextPtr m" using that fresh by auto
      then show ?thesis by (simp add: entryPath_def m'_def)
    qed
    have epn: "entryPath Join m' (nextPtr m) = Path Join f"
      by (simp add: entryPath_def m'_def newEntry_def)
    have notin: "Path Join f \<notin> entryPath Join m ` set (Entries m)"
    proof
      assume "Path Join f \<in> entryPath Join m ` set (Entries m)"
      then obtain p where "p \<in> set (Entries m)" "entryPath Join m p = Path Join f" by auto
      then have "pathMap m (Path Join f) = Some p" using pm by blast
      then show False using None by simp
    qed
    have mp: "map (entryPath Join m') (Entries m) = map (entryPath Join m) (Entries m)"
      using ep by simp
    have d': "distinct (map (entryPath Join m') (Entries m'))"
      using d notin by (simp add: E mp epn)
    have pm': "pathMap m' path = Some p \<longleftrightarrow> p \<in> set (Entries m') \<and> entryPath Join m' p = path" for path p
    proof (cases "p = nextPtr m")
      case True
      have "pathMap m path \<noteq> Some (nextPtr m)" using pm[of path "nextPtr m"] fresh by blast
      then show ?thesis unfolding True E epn by auto
    next
      case False
      show ?thesis
      proof (cases "p \<in> set (Entries m)")
        case True
        have "entryPath Join m p \<noteq> Path Join f" using notin True by (metis imageI)
        then show ?thesis using pm[of path p] False True unfolding E ep[OF True] by auto
      next
        case F2: False
        have "pathMap m path \<noteq> Some p" using pm[of path p] F2 by blast
        then show ?thesis using False F2 unfolding E by auto
      qed
    qed
    have al': "\<forall>p\<in>set (Entries m'). p < nextPtr m'" using al by (auto simp: E less_Suc_eq)
    show ?thesis unfolding eq minv_iff using d' pm' al' by blast
  next
    case (Some q)
    define m' where "m' = m \<lparr> heap := (heap m) (nextPtr m := newEntry, q := newEntry), nextPtr := Suc (nextPtr m) \<rparr>"
    have eq: "updateFile Join key m f = m'"
      using Some by (simp add: updateFile_def Let_def m'_def newEntry_def parts_def)
    have q: "q \<in> set (Entries m)" "entryPath Join m q = Path Join f" using Some pm by auto
    have fresh: "nextPtr m \<notin> set (Entries m)" using al by auto
    have ep: "entryPath Join m' p = entryPath Join m p" if "p \<in> set (Entries m)" for p
      using that fresh q by (auto simp: entryPath_def m'_def newEntry_def)
    have mp: "map (entryPath Join m') (Entries m) = map (entryPath Join m) (Entries m)"
      using ep by simp
    have E: "Entries m' = Entries m" "pathMap m' = pathMap m" "nextPtr m' = Suc (nextPtr m)"
      by (simp_all add: m'_def)
    have pm': "pathMap m' path = Some p \<longleftrightarrow> p \<in> set (Entries m') \<and> entryPath Join m' p = path" for path p
      using pm[of path p] ep[of p] by (auto simp: E)
    have al': "\<forall>p\<in>set (Entries m'). p < nextPtr m'" using al by (auto simp: E less_Suc_eq)
    show ?thesis unfolding eq minv_iff using d pm' al' by (simp add: E mp)
  qed
qed

lemma foldl_updateFile_minv: "minv Join m \<Longrightarrow> minv Join (foldl (updateFile Join key) m fs)"
  by (induction fs arbitrary: m) (simp_all add: updateFile_minv)

lemma foldl_updateBundle_minv:
  "minv Join m \<Longrightarrow> minv Join (fst (foldl (updateBundle Join) (m, kf) bundles))"
proof (induction bundles arbitrary: m kf)
  case Nil
  then show ?case by simp
next
  case (Cons b bs)
  obtain key kf' where k: "nextKey kf = (key, kf')" by (cases "nextKey kf")
  have "minv Join (foldl (updateFile Join key) m b)" using Cons.prems by (rule foldl_updateFile_minv)
  from Cons.IH[OF this] show ?case by (simp add: updateBundle_def k)
qed

lemma entryPath_fields [simp]:
  "entryPath Join (m \<lparr> LastSet := a \<rparr>) = entryPath Join m"
  "entryPath Join (m \<lparr> Updated := b \<rparr>) = entryPath Join m"
  "entryPath Join (m \<lparr> Created := c \<rparr>) = entryPath Join m"
  by (rule ext, simp add: entryPath_def)+

lemma minv_fields:
  "minv Join (m \<lparr> LastSet := a, Updated := b \<rparr>) = minv Join m"
  "minv Join (m \<lparr> Created := c \<rparr>) = minv Join m"
  by (simp_all add: minv_def uniquePaths_def exactPaths_def sameObject_def allocated_def)

lemma Update_minv: "minv Join m \<Longrightarrow> minv Join (snd (Update Join cksum srt now m files))"
  by (simp add: Update_def Let_def foldl_updateBundle_minv minv_fields)

lemma emptyManifest_minv: "minv Join emptyManifest"
  by (simp add: minv_def uniquePaths_def exactPaths_def sameObject_def allocated_def emptyManifest_def)

lemma NewManifest_minv: "minv Join (NewManifest Join cksum srt now files)"
proof -
  obtain t m where u: "Update Join cksum srt now emptyManifest files = (t, m)"
    by (cases "Update Join cksum srt now emptyManifest files")
  have "minv Join m" using Update_minv[OF emptyManifest_minv, of Join cksum srt now files] u by simp
  then show ?thesis by (simp add: NewManifest_def u minv_fields)
qed



text \<open>The entry a manifest holds for a path.\<close>

definition lookup :: "Manifest \<Rightarrow> string \<Rightarrow> ManifestEntry option" where
  "lookup m path = map_option (heap m) (pathMap m path)"

lemma removeEntry_props:
  assumes inv: "minv Join m" and look: "pathMap m path = Some p"
  shows "\<exists>m'. removeEntry Join m p = Some m' \<and> minv Join m'
      \<and> lookup m' = (lookup m) (path := None)
      \<and> (\<forall>x. x \<noteq> p \<longrightarrow> heap m' x = heap m x)
      \<and> (\<forall>q r. pathMap m' q = Some r \<longrightarrow> pathMap m q = Some r \<or> r = p)
      \<and> set (Entries m') \<subseteq> set (Entries m)
      \<and> nextPtr m' = nextPtr m \<and> LastSet m' = LastSet m"
proof -
  from inv have d: "distinct (map (entryPath Join m) (Entries m))"
    and pm: "\<And>path p. pathMap m path = Some p \<longleftrightarrow> p \<in> set (Entries m) \<and> entryPath Join m p = path"
    and al: "\<And>p. p \<in> set (Entries m) \<Longrightarrow> p < nextPtr m"
    by (simp_all add: minv_iff)
  have p: "p \<in> set (Entries m)" "entryPath Join m p = path" using look pm by auto
  then have ne: "Entries m \<noteq> []" by auto
  define l where "l = last (Entries m)"
  define xs where "xs = butlast (Entries m)"
  have Es: "Entries m = xs @ [l]" using ne by (simp add: l_def xs_def)
  have dE: "distinct (Entries m)" using d by (simp add: distinct_map)
  have lxs: "l \<notin> set xs" using dE Es by auto
  define pl where "pl = entryPath Join m l"
  have plxs: "pl \<notin> entryPath Join m ` set xs" using d Es by (auto simp: pl_def)
  define m' where "m' = m \<lparr> heap := (heap m) (p := heap m l),
      pathMap := ((pathMap m) (pl \<mapsto> p)) (path := None), Entries := xs \<rparr>"
  have eq: "removeEntry Join m p = Some m'"
    using ne p(2)
    by (simp add: removeEntry_def Let_def m'_def l_def[symmetric] xs_def[symmetric] pl_def entryPath_def)
  have E: "Entries m' = xs" "pathMap m' = ((pathMap m) (pl \<mapsto> p)) (path := None)"
    "nextPtr m' = nextPtr m" "LastSet m' = LastSet m" "heap m' = (heap m) (p := heap m l)"
    by (simp_all add: m'_def)
  have ep: "entryPath Join m' x = (if x = p then pl else entryPath Join m x)" for x
    by (simp add: entryPath_def E pl_def)
  show ?thesis
  proof (cases "p = l")
    case True
    then have plp: "pl = path" using p(2) by (simp add: pl_def)
    have pxs: "p \<notin> set xs" using True lxs by simp
    have epx: "entryPath Join m' x = entryPath Join m x" if "x \<in> set xs" for x
      using that pxs by (auto simp: ep)
    have mp: "map (entryPath Join m') xs = map (entryPath Join m) xs" using epx by simp
    have d': "distinct (map (entryPath Join m') (Entries m'))" using d Es by (simp add: E mp)
    have pmE: "pathMap m' = (pathMap m) (path := None)" by (simp add: E plp)
    have pm': "pathMap m' q = Some r \<longleftrightarrow> r \<in> set (Entries m') \<and> entryPath Join m' r = q" for q r
    proof (cases "r \<in> set xs")
      case T: True
      have "entryPath Join m r \<noteq> path" using plxs T plp by (metis imageI)
      then show ?thesis using pm[of q r] T Es by (auto simp: pmE E(1) epx[OF T])
    next
      case F: False
      have "pathMap m q = Some r \<Longrightarrow> q = path" using pm[of q r] F Es True p(2) by auto
      then show ?thesis using F by (auto simp: pmE E(1))
    qed
    have al': "\<forall>x\<in>set (Entries m'). x < nextPtr m'" using al Es by (simp add: E)
    have i': "minv Join m'" unfolding minv_iff using d' pm' al' by blast
    have hp: "heap m' = heap m" using True by (simp add: E fun_eq_iff)
    have lk: "lookup m' = (lookup m) (path := None)"
      by (simp add: lookup_def fun_eq_iff pmE hp)
    show ?thesis using eq i' lk hp Es by (auto simp: E(1,3,4) pmE split: if_splits)
  next
    case False
    then have pxs: "p \<in> set xs" using p(1) Es by auto
    have ppl: "path \<noteq> pl"
    proof
      assume "path = pl"
      then have "entryPath Join m p = entryPath Join m l" using p(2) by (simp add: pl_def)
      moreover have "p \<in> set (Entries m)" "l \<in> set (Entries m)" using p(1) Es by auto
      ultimately have "p = l" using d by (meson distinct_map inj_onD)
      then show False using False by simp
    qed
    have dxs: "distinct (map (entryPath Join m) xs)" using d Es by simp
    have d': "distinct (map (entryPath Join m') xs)"
    proof -
      have inj: "inj_on (entryPath Join m) (set xs)" using dxs by (simp add: distinct_map)
      have "inj_on (entryPath Join m') (set xs)"
      proof (rule inj_onI)
        fix x y assume x: "x \<in> set xs" and y: "y \<in> set xs"
          and e: "entryPath Join m' x = entryPath Join m' y"
        show "x = y"
        proof (cases "x = p"; cases "y = p")
          assume "x = p" "y = p" then show ?thesis by simp
        next
          assume a: "x = p" "y \<noteq> p"
          then have "entryPath Join m y = pl" using e by (simp add: ep)
          then show ?thesis using plxs y by (metis imageI)
        next
          assume a: "x \<noteq> p" "y = p"
          then have "entryPath Join m x = pl" using e by (simp add: ep)
          then show ?thesis using plxs x by (metis imageI)
        next
          assume a: "x \<noteq> p" "y \<noteq> p"
          then have "entryPath Join m x = entryPath Join m y" using e by (simp add: ep)
          then show ?thesis using inj x y by (meson inj_onD)
        qed
      qed
      moreover have "distinct xs" using dxs by (simp add: distinct_map)
      ultimately show ?thesis by (simp add: distinct_map)
    qed
    have pm': "pathMap m' q = Some r \<longleftrightarrow> r \<in> set (Entries m') \<and> entryPath Join m' r = q" for q r
    proof (cases "r = p")
      case T: True
      have "pathMap m q = Some p \<Longrightarrow> q = path" using pm[of q p] p(2) by simp
      then show ?thesis using pxs ppl by (auto simp: E(1,2) T ep)
    next
      case F: False
      have a: "pathMap m' q = Some r \<longleftrightarrow> q \<noteq> path \<and> q \<noteq> pl \<and> pathMap m q = Some r"
        using F by (auto simp: E(2))
      have b: "r \<in> set xs \<Longrightarrow> entryPath Join m r \<noteq> pl" using plxs by (metis imageI)
      have c: "r \<in> set xs \<Longrightarrow> entryPath Join m r \<noteq> path"
      proof
        assume "r \<in> set xs" "entryPath Join m r = path"
        then have "entryPath Join m r = entryPath Join m p" using p(2) by simp
        moreover have "inj_on (entryPath Join m) (set xs)" using dxs by (simp add: distinct_map)
        ultimately have "r = p" using \<open>r \<in> set xs\<close> pxs by (meson inj_onD)
        then show False using F by simp
      qed
      have e: "r = l \<Longrightarrow> entryPath Join m r = pl" by (simp add: pl_def)
      show ?thesis unfolding a E(1) using pm[of q r] F b c e lxs Es by (auto simp: ep)
    qed
    have al': "\<forall>x\<in>set (Entries m'). x < nextPtr m'" using al Es by (simp add: E)
    have i': "minv Join m'" unfolding minv_iff E(1) using d' pm' al' by (simp add: E(1))
    have lk: "lookup m' q = ((lookup m) (path := None)) q" for q
    proof (cases "q = path")
      case True
      then show ?thesis by (simp add: lookup_def E(2))
    next
      case qp: False
      show ?thesis
      proof (cases "q = pl")
        case True
        have "pathMap m pl = Some l" using pm[of pl l] Es by (simp add: pl_def)
        then show ?thesis using True qp by (simp add: lookup_def E(2,5))
      next
        case qpl: False
        have "pathMap m q \<noteq> Some p" using pm[of q p] p(2) qp by auto
        then show ?thesis using qp qpl by (cases "pathMap m q") (auto simp: lookup_def E(2,5))
      qed
    qed
    then have lk': "lookup m' = (lookup m) (path := None)" by (rule ext)
    have h: "\<forall>x. x \<noteq> p \<longrightarrow> heap m' x = heap m x" by (simp add: E(5))
    have pmr: "\<forall>q r. pathMap m' q = Some r \<longrightarrow> pathMap m q = Some r \<or> r = p"
      by (auto simp: E(2) split: if_splits)
    show ?thesis using eq i' lk' h pmr Es by (auto simp: E(1,3,4))
  qed
qed

lemma Remove_props:
  assumes inv: "minv Join m"
  shows "\<exists>m'. Remove Join m f = Some (Has Join m f, m') \<and> minv Join m'
      \<and> lookup m' = (lookup m) (Path Join f := None)
      \<and> nextPtr m' = nextPtr m \<and> LastSet m' = LastSet m"
proof (cases "pathMap m (Path Join f)")
  case None
  then have "lookup m = (lookup m) (Path Join f := None)" by (auto simp: lookup_def fun_eq_iff)
  then show ?thesis using None inv by (simp add: Remove_def Has_def)
next
  case (Some p)
  from removeEntry_props[OF inv Some] obtain m' where
    "removeEntry Join m p = Some m'" "minv Join m'" "lookup m' = (lookup m) (Path Join f := None)"
    "nextPtr m' = nextPtr m" "LastSet m' = LastSet m" by blast
  then show ?thesis using Some by (simp add: Remove_def Has_def)
qed


text \<open>
  \<^verbatim>\<open>Manifest.UnmarshalJSON\<close>: \<^verbatim>\<open>json.Unmarshal\<close> fills the fields and allocates one
  object per decoded entry (\<open>decodedManifest\<close>), then \<^verbatim>\<open>buildPathMap\<close> runs.
\<close>

definition decodedManifest :: "int \<Rightarrow> string \<Rightarrow> int \<Rightarrow> int \<Rightarrow> ManifestEntry list \<Rightarrow> Manifest" where
  "decodedManifest v ls c u es =
     \<lparr> Version = v, LastSet = ls, Created = c, Updated = u, Entries = [0..<length es],
       pathMap = Map.empty,
       heap = (\<lambda>p. if p < length es then es ! p else heap emptyManifest p),
       nextPtr = length es \<rparr>"

lemma foldl_pathMap:
  "distinct (map g ps) \<Longrightarrow>
   foldl (\<lambda>pm p. pm (g p \<mapsto> p)) Map.empty ps path = Some p \<longleftrightarrow> p \<in> set ps \<and> g p = path"
proof (induction ps arbitrary: path p rule: rev_induct)
  case Nil
  then show ?case by simp
next
  case (snoc x xs)
  have d: "distinct (map g xs)" and nx: "g x \<notin> g ` set xs" using snoc.prems by auto
  show ?case
  proof (cases "path = g x")
    case True
    have "p \<in> set xs \<Longrightarrow> g p \<noteq> g x" using nx by (metis imageI)
    then show ?thesis using True by auto
  next
    case False
    then show ?thesis using snoc.IH[OF d, of path p] by auto
  qed
qed

lemma buildPathMap_minv:
  assumes "distinct (map (entryPath Join m) (Entries m))" "allocated m"
  shows "minv Join (buildPathMap Join m)"
proof -
  have ep: "entryPath Join (buildPathMap Join m) = entryPath Join m"
    by (rule ext) (simp add: entryPath_def buildPathMap_def)
  have E: "Entries (buildPathMap Join m) = Entries m" "nextPtr (buildPathMap Join m) = nextPtr m"
    by (simp_all add: buildPathMap_def)
  have pm: "pathMap (buildPathMap Join m) path = Some p
       \<longleftrightarrow> p \<in> set (Entries m) \<and> entryPath Join m p = path" for path p
    using foldl_pathMap[OF assms(1), of path p] by (simp add: buildPathMap_def)
  show ?thesis unfolding minv_iff ep E using assms pm by (simp add: allocated_def list_all_iff)
qed

lemma decodedManifest_paths:
  "map (entryPath Join (decodedManifest v ls c u es)) (Entries (decodedManifest v ls c u es))
     = map (\<lambda>e. Path Join (eFile e)) es"
  by (rule nth_equalityI) (simp_all add: decodedManifest_def entryPath_def)

lemma decodedManifest_minv:
  assumes "distinct (map (\<lambda>e. Path Join (eFile e)) es)"
  shows "minv Join (buildPathMap Join (decodedManifest v ls c u es))"
proof (rule buildPathMap_minv)
  show "distinct (map (entryPath Join (decodedManifest v ls c u es)) (Entries (decodedManifest v ls c u es)))"
    using assms by (simp only: decodedManifest_paths)
  show "allocated (decodedManifest v ls c u es)"
    by (simp add: allocated_def decodedManifest_def list_all_iff)
qed

lemma Remove_not_Has:
  assumes "Remove Join m f = Some (b, m')" "lookup m' = (lookup m) (Path Join f := None)"
  shows "\<not> Has Join m' f"
proof -
  have "lookup m' (Path Join f) = None" using assms(2) by simp
  then show ?thesis by (simp add: lookup_def Has_def)
qed

text \<open>
  Claim C5, as amended. \<^verbatim>\<open>NewManifest\<close> establishes the invariant, \<^verbatim>\<open>Update\<close> and
  \<^verbatim>\<open>Remove\<close> preserve it (\<^verbatim>\<open>Remove\<close> never panics on a manifest that satisfies it,
  reports whether the path was present, and by its swap-with-tail deletion drops exactly the
  entry of that path), and unmarshalling establishes it when the decoded entries have
  pairwise distinct paths.
\<close>

theorem manifest_operations_keep_invariant:
  "minv Join (NewManifest Join cksum srt now files)
   \<and> (minv Join m \<longrightarrow> minv Join (snd (Update Join cksum srt now m files)))
   \<and> (minv Join m \<longrightarrow>
        (\<exists>m'. Remove Join m f = Some (Has Join m f, m') \<and> minv Join m' \<and> \<not> Has Join m' f
           \<and> lookup m' = (lookup m) (Path Join f := None)))
   \<and> (distinct (map (\<lambda>e. Path Join (eFile e)) es) \<longrightarrow>
        minv Join (buildPathMap Join (decodedManifest v ls c u es)))"
proof -
  have r: "\<exists>m'. Remove Join m f = Some (Has Join m f, m') \<and> minv Join m' \<and> \<not> Has Join m' f
           \<and> lookup m' = (lookup m) (Path Join f := None)" if "minv Join m"
  proof -
    from Remove_props[OF that, of f] obtain m' where
      m': "Remove Join m f = Some (Has Join m f, m')" "minv Join m'"
        "lookup m' = (lookup m) (Path Join f := None)" by blast
    then show ?thesis using Remove_not_Has[OF m'(1,3)] by blast
  qed
  show ?thesis using NewManifest_minv Update_minv r decodedManifest_minv by blast
qed

text \<open>A stand-in for \<^verbatim>\<open>filepath.Join\<close> on two clean components, for the examples.\<close>

definition simpleJoin :: "string \<Rightarrow> string \<Rightarrow> string" where
  "simpleJoin r n = r @ ''/'' @ n"

theorem manifest_operations_keep_invariant_witness:
  "minv simpleJoin (NewManifest simpleJoin (\<lambda>f. replicate 20 1) id 300 [mockFile ''a'' 10, mockFile ''b'' 20])
   \<and> minv simpleJoin (snd (Update simpleJoin (\<lambda>f. replicate 20 1) id 300
        (NewManifest simpleJoin (\<lambda>f. replicate 20 1) id 300 [mockFile ''a'' 10, mockFile ''b'' 20])
        [mockFile ''a'' 11, mockDir ''d'']))
   \<and> (\<exists>m'. Remove simpleJoin
          (NewManifest simpleJoin (\<lambda>f. replicate 20 1) id 300 [mockFile ''a'' 10, mockFile ''b'' 20])
          (mockFile ''a'' 10)
         = Some (Has simpleJoin (NewManifest simpleJoin (\<lambda>f. replicate 20 1) id 300 [mockFile ''a'' 10, mockFile ''b'' 20]) (mockFile ''a'' 10), m')
        \<and> minv simpleJoin m' \<and> \<not> Has simpleJoin m' (mockFile ''a'' 10))
   \<and> distinct (map (\<lambda>e. Path simpleJoin (eFile e))
        [\<lparr> eFile = mockFile ''a'' 10, eSet = ''s'', Parts = [] \<rparr>, \<lparr> eFile = mockFile ''b'' 20, eSet = ''s'', Parts = [] \<rparr>])
   \<and> minv simpleJoin (buildPathMap simpleJoin (decodedManifest 3 ''s'' 0 0
        [\<lparr> eFile = mockFile ''a'' 10, eSet = ''s'', Parts = [] \<rparr>, \<lparr> eFile = mockFile ''b'' 20, eSet = ''s'', Parts = [] \<rparr>]))"
proof -
  define m where "m = NewManifest simpleJoin (\<lambda>f. replicate 20 1) id 300 [mockFile ''a'' 10, mockFile ''b'' 20]"
  define es where "es = [\<lparr> eFile = mockFile ''a'' 10, eSet = ''s'', Parts = [] \<rparr>, \<lparr> eFile = mockFile ''b'' 20, eSet = ''s'', Parts = [] \<rparr>]"
  note t = manifest_operations_keep_invariant[where Join = simpleJoin and cksum = "\<lambda>f. replicate 20 1"
      and srt = id and now = 300 and files = "[mockFile ''a'' 10, mockFile ''b'' 20]" and m = m
      and f = "mockFile ''a'' 10" and es = es and v = 3 and ls = "''s''" and c = 0 and u = 0]
  note t2 = manifest_operations_keep_invariant[where Join = simpleJoin and cksum = "\<lambda>f. replicate 20 1"
      and srt = id and now = 300 and files = "[mockFile ''a'' 11, mockDir ''d'']" and m = m]
  have i: "minv simpleJoin m" using t by (simp add: m_def)
  have d: "distinct (map (\<lambda>e. Path simpleJoin (eFile e)) es)"
    by (simp add: es_def Path_def simpleJoin_def mockFile_def)
  have u: "minv simpleJoin (snd (Update simpleJoin (\<lambda>f. replicate 20 1) id 300 m [mockFile ''a'' 11, mockDir ''d'']))"
    using t2 i by blast
  show ?thesis using t i d u unfolding m_def[symmetric] es_def[symmetric] by blast
qed

text \<open>
  Claim C5 as stated fails for unmarshalling: a manifest document whose entries repeat a
  path decodes into two entries with that path, and \<^verbatim>\<open>pathMap\<close> points at the second
  only.
\<close>

theorem unmarshal_duplicate_paths_break_invariant:
  "\<not> uniquePaths simpleJoin (buildPathMap simpleJoin (decodedManifest 3 ''s'' 0 0
        [\<lparr> eFile = mockFile ''a'' 10, eSet = ''s'', Parts = [] \<rparr>, \<lparr> eFile = mockFile ''a'' 20, eSet = ''s'', Parts = [] \<rparr>]))
   \<and> \<not> sameObject simpleJoin (buildPathMap simpleJoin (decodedManifest 3 ''s'' 0 0
        [\<lparr> eFile = mockFile ''a'' 10, eSet = ''s'', Parts = [] \<rparr>, \<lparr> eFile = mockFile ''a'' 20, eSet = ''s'', Parts = [] \<rparr>]))
   \<and> \<not> minv simpleJoin (buildPathMap simpleJoin (decodedManifest 3 ''s'' 0 0
        [\<lparr> eFile = mockFile ''a'' 10, eSet = ''s'', Parts = [] \<rparr>, \<lparr> eFile = mockFile ''a'' 20, eSet = ''s'', Parts = [] \<rparr>]))"
  by (simp add: minv_def uniquePaths_def sameObject_def buildPathMap_def decodedManifest_def entryPath_def
      Path_def simpleJoin_def mockFile_def upt_conv_Cons)

subsection \<open>Comparing a scan with the manifest\<close>

text \<open>
  The checksum pass of \<^verbatim>\<open>Compare\<close> reads the files: \<^verbatim>\<open>checksumFile\<close> and
  \<^verbatim>\<open>checksumSymlink\<close> call \<^verbatim>\<open>log.Fatal\<close> when a file cannot be read, which ends the
  process. So here the file system answers with a checksum or with a read error (\<open>None\<close>),
  and \<^verbatim>\<open>ChecksumFilesFS\<close> returns the hashed groups or does not return (\<open>None\<close>). When
  no regular file or symlink lacks a checksum nothing is read; otherwise every regular file
  and symlink of every group is read, those with a checksum too.
\<close>

definition rehashFS :: "(File \<Rightarrow> byte list option) \<Rightarrow> File \<Rightarrow> File option" where
  "rehashFS fs f =
     (if IsRegular f \<or> IsSymlink f then map_option (\<lambda>h. f \<lparr> SHA1 := h \<rparr>) (fs f) else Some f)"

definition ChecksumFilesFS :: "(File \<Rightarrow> byte list option) \<Rightarrow> File list list \<Rightarrow> File list list option" where
  "ChecksumFilesFS fs groups =
     (if \<not> list_ex needsHash (concat groups) then Some groups
      else those (map (\<lambda>files. those (map (rehashFS fs) files)) groups))"

text \<open>
  \<^verbatim>\<open>Manifest.Compare\<close>. \<open>compareStep\<close> is the body of the first loop (\<^verbatim>\<open>before.Has(a)\<close>
  is the lookup in \<^verbatim>\<open>pathMap\<close>), \<open>promoteStep\<close> the body of the second, where
  \<^verbatim>\<open>b.SHA1\<close> on a missing map entry would dereference nil: the result \<open>None\<close>. The
  function returns the changed files, or panics, or the process ends in the checksum pass.
\<close>

datatype compared = Changed "File list" | ComparePanics | CompareExits

definition compareStep ::
  "(string \<Rightarrow> string \<Rightarrow> string) \<Rightarrow> Manifest \<Rightarrow> File list \<times> File list \<Rightarrow> File \<Rightarrow> File list \<times> File list" where
  "compareStep Join before st a =
     (case st of (touched, changed) \<Rightarrow>
        (case pathMap before (Path Join a) of
           Some p \<Rightarrow>
             (let b = heap before p in
              if \<not> IsDir a \<and> Size a \<noteq> Size (eFile b) then (touched, changed @ [a])
              else if ModTime a \<noteq> ModTime (eFile b) then (touched @ [a], changed)
              else (touched, changed))
         | None \<Rightarrow> (touched, changed @ [a])))"

definition promoteStep ::
  "(string \<Rightarrow> string \<Rightarrow> string) \<Rightarrow> Manifest \<Rightarrow> File list option \<Rightarrow> File \<Rightarrow> File list option" where
  "promoteStep Join before st a =
     (case st of
        None \<Rightarrow> None
      | Some changed \<Rightarrow>
          (case pathMap before (Path Join a) of
             None \<Rightarrow> None
           | Some p \<Rightarrow>
               if SHA1 a \<noteq> SHA1 (eFile (heap before p)) then Some (changed @ [a])
               else Some changed))"

definition Compare ::
  "(string \<Rightarrow> string \<Rightarrow> string) \<Rightarrow> (File \<Rightarrow> byte list option) \<Rightarrow> Manifest \<Rightarrow> File list \<Rightarrow> compared" where
  "Compare Join fs before after =
     (case foldl (compareStep Join before) ([], []) after of
        (touched, changed) \<Rightarrow>
          (case ChecksumFilesFS fs [touched, changed] of
             None \<Rightarrow> CompareExits
           | Some groups \<Rightarrow>
               (case foldl (promoteStep Join before) (Some (groups ! 1)) (groups ! 0) of
                  None \<Rightarrow> ComparePanics
                | Some changed' \<Rightarrow> Changed changed')))"

text \<open>
  What the two loops compute. A scanned file is a candidate when it is new, is no directory
  and differs in size from the stored entry, or differs in modification time; the checksum
  pass runs over the candidates, and fails when it runs and one of the regular files and
  symlinks among them cannot be read (\<open>readFails\<close>). \<open>sumOf fs\<close> is the checksum of a
  file that can be read, \<open>checksumPass\<close> what the pass does to each candidate, and
  \<open>mustUpload\<close> is the verdict on a file after that pass.
\<close>

definition candidate :: "(string \<Rightarrow> string \<Rightarrow> string) \<Rightarrow> Manifest \<Rightarrow> File \<Rightarrow> bool" where
  "candidate Join before a =
     (case lookup before (Path Join a) of
        None \<Rightarrow> True
      | Some e \<Rightarrow> (\<not> IsDir a \<and> Size a \<noteq> Size (eFile e)) \<or> ModTime a \<noteq> ModTime (eFile e))"

definition unreadable :: "(File \<Rightarrow> byte list option) \<Rightarrow> File \<Rightarrow> bool" where
  "unreadable fs f \<longleftrightarrow> (IsRegular f \<or> IsSymlink f) \<and> fs f = None"

definition readFails :: "(string \<Rightarrow> string \<Rightarrow> string) \<Rightarrow> (File \<Rightarrow> byte list option) \<Rightarrow> Manifest \<Rightarrow> File list \<Rightarrow> bool" where
  "readFails Join fs before after \<longleftrightarrow>
     list_ex needsHash (filter (candidate Join before) after)
     \<and> list_ex (unreadable fs) (filter (candidate Join before) after)"

definition sumOf :: "(File \<Rightarrow> byte list option) \<Rightarrow> File \<Rightarrow> byte list" where
  "sumOf fs f = (case fs f of Some h \<Rightarrow> h | None \<Rightarrow> SHA1 f)"

definition mustUpload :: "(string \<Rightarrow> string \<Rightarrow> string) \<Rightarrow> Manifest \<Rightarrow> File \<Rightarrow> bool" where
  "mustUpload Join before x =
     (case lookup before (Path Join x) of
        None \<Rightarrow> True
      | Some e \<Rightarrow> (\<not> IsDir x \<and> Size x \<noteq> Size (eFile e))
                 \<or> (ModTime x \<noteq> ModTime (eFile e) \<and> SHA1 x \<noteq> SHA1 (eFile e)))"

definition checksumPass :: "(string \<Rightarrow> string \<Rightarrow> string) \<Rightarrow> (File \<Rightarrow> byte list) \<Rightarrow> Manifest \<Rightarrow> File list \<Rightarrow> File \<Rightarrow> File" where
  "checksumPass Join cksum before after =
     (if list_ex needsHash (filter (candidate Join before) after) then rehash cksum else id)"

definition isChanged :: "(string \<Rightarrow> string \<Rightarrow> string) \<Rightarrow> Manifest \<Rightarrow> File \<Rightarrow> bool" where
  "isChanged Join before a =
     (case lookup before (Path Join a) of
        None \<Rightarrow> True
      | Some e \<Rightarrow> \<not> IsDir a \<and> Size a \<noteq> Size (eFile e))"

definition isTouched :: "(string \<Rightarrow> string \<Rightarrow> string) \<Rightarrow> Manifest \<Rightarrow> File \<Rightarrow> bool" where
  "isTouched Join before a =
     (case lookup before (Path Join a) of
        None \<Rightarrow> False
      | Some e \<Rightarrow> \<not> (\<not> IsDir a \<and> Size a \<noteq> Size (eFile e)) \<and> ModTime a \<noteq> ModTime (eFile e))"

lemma compareStep_eq:
  "compareStep Join before (t, c) a
     = (t @ filter (isTouched Join before) [a], c @ filter (isChanged Join before) [a])"
  by (cases "pathMap before (Path Join a)")
     (auto simp: compareStep_def isTouched_def isChanged_def lookup_def Let_def)

lemma foldl_compareStep:
  "foldl (compareStep Join before) (t, c) after
     = (t @ filter (isTouched Join before) after, c @ filter (isChanged Join before) after)"
proof (induction after arbitrary: t c)
  case Nil
  then show ?case by simp
next
  case (Cons a after)
  show ?case unfolding foldl_Cons compareStep_eq Cons by simp
qed

lemma rehash_keeps [simp]:
  "Root (rehash cksum f) = Root f" "Name (rehash cksum f) = Name f" "Size (rehash cksum f) = Size f"
  "Mode (rehash cksum f) = Mode f" "ModTime (rehash cksum f) = ModTime f"
  by (simp_all add: rehash_def)

lemma rehash_Path [simp]: "Path Join (rehash cksum f) = Path Join f"
  by (simp add: Path_def)

lemma rehash_IsDir [simp]: "IsDir (rehash cksum f) = IsDir f"
  by (simp add: IsDir_def)

lemma promoteStep_eq:
  "pathMap before (Path Join a) \<noteq> None \<Longrightarrow>
   promoteStep Join before (Some c) a
     = Some (c @ filter (\<lambda>a. \<forall>e. lookup before (Path Join a) = Some e \<longrightarrow> SHA1 a \<noteq> SHA1 (eFile e)) [a])"
  by (auto simp: promoteStep_def lookup_def)

lemma foldl_promoteStep:
  assumes "\<forall>a\<in>set ts. pathMap before (Path Join a) \<noteq> None"
  shows "foldl (promoteStep Join before) (Some c) ts
     = Some (c @ filter (\<lambda>a. \<forall>e. lookup before (Path Join a) = Some e \<longrightarrow> SHA1 a \<noteq> SHA1 (eFile e)) ts)"
  using assms
proof (induction ts arbitrary: c)
  case Nil
  then show ?case by simp
next
  case (Cons a ts)
  have h: "pathMap before (Path Join a) \<noteq> None" using Cons.prems by simp
  have r: "\<forall>a\<in>set ts. pathMap before (Path Join a) \<noteq> None" using Cons.prems by simp
  show ?case unfolding foldl_Cons promoteStep_eq[OF h] Cons.IH[OF r] by simp
qed

lemma ChecksumFiles_two:
  "ChecksumFiles cksum [t, c]
     = (if list_ex needsHash (t @ c) then [map (rehash cksum) t, map (rehash cksum) c] else [t, c])"
  by (simp add: ChecksumFiles_def)

lemma those_rehashFS:
  "those (map (rehashFS fs) files)
     = (if list_ex (unreadable fs) files then None else Some (map (rehash (sumOf fs)) files))"
proof (induction files)
  case Nil
  then show ?case by simp
next
  case (Cons f files)
  show ?case
  proof (cases "unreadable fs f")
    case True
    then show ?thesis by (simp add: rehashFS_def unreadable_def)
  next
    case False
    then have "rehashFS fs f = Some (rehash (sumOf fs) f)"
      by (auto simp: rehashFS_def rehash_def sumOf_def unreadable_def)
    then show ?thesis using False Cons by simp
  qed
qed

lemma ChecksumFilesFS_two:
  "ChecksumFilesFS fs [t, c]
     = (if list_ex needsHash (t @ c) \<and> list_ex (unreadable fs) (t @ c) then None
        else Some (ChecksumFiles (sumOf fs) [t, c]))"
  by (auto simp: ChecksumFilesFS_def ChecksumFiles_def those_rehashFS)

text \<open>Where every file can be read the two checksum passes agree.\<close>

lemma ChecksumFilesFS_readable:
  "ChecksumFilesFS (\<lambda>f. Some (cksum f)) groups = Some (ChecksumFiles cksum groups)"
proof -
  have s: "sumOf (\<lambda>f. Some (cksum f)) = cksum" by (rule ext) (simp add: sumOf_def)
  have n: "\<not> list_ex (unreadable (\<lambda>f. Some (cksum f))) files" for files
    by (simp add: list_ex_iff unreadable_def)
  have "those (map (\<lambda>files. those (map (rehashFS (\<lambda>f. Some (cksum f))) files)) groups)
      = Some (map (map (rehash cksum)) groups)"
    by (induction groups) (simp_all add: those_rehashFS n s)
  then show ?thesis by (simp add: ChecksumFilesFS_def ChecksumFiles_def)
qed

lemma isTouched_has: "isTouched Join before a \<Longrightarrow> pathMap before (Path Join a) \<noteq> None"
  by (auto simp: isTouched_def lookup_def split: option.splits)

lemma candidate_split: "candidate Join before a \<longleftrightarrow> isTouched Join before a \<or> isChanged Join before a"
  by (auto simp: candidate_def isTouched_def isChanged_def split: option.splits)

lemma list_ex_candidates:
  "(list_ex P (filter (isTouched Join before) after) \<or> list_ex P (filter (isChanged Join before) after))
     = list_ex P (filter (candidate Join before) after)"
  by (auto simp: list_ex_iff candidate_split)

lemma Compare_eq:
  "Compare Join fs before after =
     (if readFails Join fs before after then CompareExits
      else Changed (map (checksumPass Join (sumOf fs) before after) (filter (isChanged Join before) after)
       @ filter (\<lambda>a. \<forall>e. lookup before (Path Join a) = Some e \<longrightarrow> SHA1 a \<noteq> SHA1 (eFile e))
           (map (checksumPass Join (sumOf fs) before after) (filter (isTouched Join before) after))))"
proof -
  define T where "T = filter (isTouched Join before) after"
  define C where "C = filter (isChanged Join before) after"
  define ck where "ck = checksumPass Join (sumOf fs) before after"
  have rf: "readFails Join fs before after
      \<longleftrightarrow> list_ex needsHash (T @ C) \<and> list_ex (unreadable fs) (T @ C)"
    by (simp add: readFails_def T_def C_def list_ex_candidates)
  have g: "ChecksumFiles (sumOf fs) [T, C] = [map ck T, map ck C]"
    by (simp add: ChecksumFiles_two T_def C_def list_ex_candidates ck_def checksumPass_def)
  have ckp: "Path Join (ck a) = Path Join a" for a
    by (simp add: ck_def checksumPass_def)
  have h: "\<forall>a\<in>set (map ck T). pathMap before (Path Join a) \<noteq> None"
    using isTouched_has by (auto simp: T_def ckp)
  have c: "Compare Join fs before after
      = (case ChecksumFilesFS fs [T, C] of
           None \<Rightarrow> CompareExits
         | Some groups \<Rightarrow>
             (case foldl (promoteStep Join before) (Some (groups ! 1)) (groups ! 0) of
                None \<Rightarrow> ComparePanics
              | Some changed' \<Rightarrow> Changed changed'))"
    unfolding Compare_def foldl_compareStep by (simp add: T_def C_def)
  show ?thesis
  proof (cases "readFails Join fs before after")
    case True
    then have "ChecksumFilesFS fs [T, C] = None" using rf by (simp add: ChecksumFilesFS_two)
    then show ?thesis using True c by simp
  next
    case False
    then have "ChecksumFilesFS fs [T, C] = Some [map ck T, map ck C]"
      using rf g by (simp add: ChecksumFilesFS_two)
    then have "Compare Join fs before after
        = (case foldl (promoteStep Join before) (Some (map ck C)) (map ck T) of
                None \<Rightarrow> ComparePanics
              | Some changed' \<Rightarrow> Changed changed')"
      using c by simp
    then show ?thesis
      unfolding foldl_promoteStep[OF h] using False by (simp add: T_def C_def ck_def)
  qed
qed

lemma mustUpload_ck:
  assumes "ck = rehash cksum \<or> ck = id"
  shows "mustUpload Join before (ck a) \<longleftrightarrow>
     isChanged Join before a
     \<or> (isTouched Join before a \<and> (\<forall>e. lookup before (Path Join a) = Some e \<longrightarrow> SHA1 (ck a) \<noteq> SHA1 (eFile e)))"
  using assms
  by (auto simp: mustUpload_def isChanged_def isTouched_def split: option.splits)

lemma mset_filter_disj:
  assumes "\<And>x. x \<in> set xs \<Longrightarrow> \<not> (P x \<and> Q x)"
  shows "mset (filter P xs) + mset (filter Q xs) = mset (filter (\<lambda>x. P x \<or> Q x) xs)"
  using assms by (induction xs) auto

lemma Compare_mset:
  assumes "\<not> readFails Join fs before after"
  shows "\<exists>L. Compare Join fs before after = Changed L
     \<and> mset L = mset (filter (mustUpload Join before) (map (checksumPass Join (sumOf fs) before after) after))"
proof -
  define ck where "ck = checksumPass Join (sumOf fs) before after"
  have c: "ck = rehash (sumOf fs) \<or> ck = id" by (simp add: ck_def checksumPass_def)
  define S where "S = (\<lambda>a. \<forall>e. lookup before (Path Join a) = Some e \<longrightarrow> SHA1 a \<noteq> SHA1 (eFile e))"
  define L where "L = map ck (filter (isChanged Join before) after)
       @ filter S (map ck (filter (isTouched Join before) after))"
  have eq: "Compare Join fs before after = Changed L"
    using assms by (simp add: Compare_eq L_def ck_def S_def)
  have dis: "\<not> (isChanged Join before x \<and> (isTouched Join before x \<and> S (ck x)))" for x
    by (auto simp: isChanged_def isTouched_def split: option.splits)
  have "mset L = mset (map ck (filter (isChanged Join before) after))
        + mset (map ck (filter (\<lambda>a. isTouched Join before a \<and> S (ck a)) after))"
    by (simp add: L_def filter_map comp_def)
  also have "\<dots> = image_mset ck (mset (filter (isChanged Join before) after)
        + mset (filter (\<lambda>a. isTouched Join before a \<and> S (ck a)) after))"
    by simp
  also have "\<dots> = image_mset ck (mset (filter (\<lambda>a. isChanged Join before a
        \<or> (isTouched Join before a \<and> S (ck a))) after))"
    using mset_filter_disj[of after "isChanged Join before" "\<lambda>a. isTouched Join before a \<and> S (ck a)"] dis
    by simp
  also have "\<dots> = image_mset ck (mset (filter (\<lambda>a. mustUpload Join before (ck a)) after))"
  proof -
    have "Path Join (ck a) = Path Join a" for a using c by auto
    then show ?thesis using mustUpload_ck[OF c] by (simp add: S_def)
  qed
  also have "\<dots> = mset (filter (mustUpload Join before) (map ck after))"
    by (simp add: filter_map comp_def)
  finally show ?thesis using eq by (auto simp: ck_def)
qed

text \<open>
  Claim C3, as amended. When the checksum pass has to read a file that cannot be read,
  \<^verbatim>\<open>Compare\<close> does not return: the process ends. Otherwise it returns, without a panic
  and up to order, exactly the scanned files (as the checksum pass leaves them) that are
  new, or are no directory and differ in size from the stored entry at their path, or differ
  from it both in modification time and in SHA-1. So a scanned file of unchanged size (or a
  directory) whose checksum equals the stored one is not returned, and a file whose size and
  modification time both equal the stored entry's is not returned, and neither is a
  directory whose modification time equals the stored entry's, whatever its size.
\<close>

theorem Compare_exact:
  "(readFails Join fs before after \<longrightarrow> Compare Join fs before after = CompareExits)
   \<and> (\<not> readFails Join fs before after \<longrightarrow>
       (\<exists>L. Compare Join fs before after = Changed L
         \<and> mset L = mset (filter (mustUpload Join before)
                            (map (checksumPass Join (sumOf fs) before after) after))
         \<and> (\<forall>a\<in>set after. \<forall>e. lookup before (Path Join a) = Some e
                \<and> (IsDir a \<or> Size a = Size (eFile e))
                \<and> SHA1 (checksumPass Join (sumOf fs) before after a) = SHA1 (eFile e)
              \<longrightarrow> checksumPass Join (sumOf fs) before after a \<notin> set L)
         \<and> (\<forall>a\<in>set after. \<forall>e. lookup before (Path Join a) = Some e
                \<and> Size a = Size (eFile e) \<and> ModTime a = ModTime (eFile e)
              \<longrightarrow> checksumPass Join (sumOf fs) before after a \<notin> set L)
         \<and> (\<forall>a\<in>set after. \<forall>e. lookup before (Path Join a) = Some e
                \<and> IsDir a \<and> ModTime a = ModTime (eFile e)
              \<longrightarrow> checksumPass Join (sumOf fs) before after a \<notin> set L)))"
proof (intro conjI impI)
  assume "readFails Join fs before after"
  then show "Compare Join fs before after = CompareExits" by (simp add: Compare_eq)
next
  assume nf: "\<not> readFails Join fs before after"
  define ck where "ck = checksumPass Join (sumOf fs) before after"
  have c: "ck = rehash (sumOf fs) \<or> ck = id" by (simp add: ck_def checksumPass_def)
  from Compare_mset[OF nf] obtain L where
    L: "Compare Join fs before after = Changed L"
       "mset L = mset (filter (mustUpload Join before) (map ck after))"
    by (auto simp: ck_def)
  have mem: "x \<in> set L \<Longrightarrow> mustUpload Join before x" for x
  proof -
    assume "x \<in> set L"
    then have "x \<in># mset L" by simp
    then have "x \<in># mset (filter (mustUpload Join before) (map ck after))" using L(2) by simp
    then show ?thesis by simp
  qed
  have keep: "Path Join (ck a) = Path Join a" "IsDir (ck a) = IsDir a" "Size (ck a) = Size a"
    "ModTime (ck a) = ModTime a" for a
    using c by auto
  have p1: "ck a \<notin> set L"
    if "lookup before (Path Join a) = Some e" "IsDir a \<or> Size a = Size (eFile e)"
       "SHA1 (ck a) = SHA1 (eFile e)" for a e
  proof
    assume "ck a \<in> set L"
    then have "mustUpload Join before (ck a)" by (rule mem)
    then show False using that by (auto simp: mustUpload_def keep)
  qed
  have p2: "ck a \<notin> set L"
    if "lookup before (Path Join a) = Some e" "Size a = Size (eFile e)"
       "ModTime a = ModTime (eFile e)" for a e
  proof
    assume "ck a \<in> set L"
    then have "mustUpload Join before (ck a)" by (rule mem)
    then show False using that by (auto simp: mustUpload_def keep)
  qed
  have p3: "ck a \<notin> set L"
    if "lookup before (Path Join a) = Some e" "IsDir a" "ModTime a = ModTime (eFile e)" for a e
  proof
    assume "ck a \<in> set L"
    then have "mustUpload Join before (ck a)" by (rule mem)
    then show False using that by (auto simp: mustUpload_def keep)
  qed
  show "\<exists>L. Compare Join fs before after = Changed L
         \<and> mset L = mset (filter (mustUpload Join before)
                            (map (checksumPass Join (sumOf fs) before after) after))
         \<and> (\<forall>a\<in>set after. \<forall>e. lookup before (Path Join a) = Some e
                \<and> (IsDir a \<or> Size a = Size (eFile e))
                \<and> SHA1 (checksumPass Join (sumOf fs) before after a) = SHA1 (eFile e)
              \<longrightarrow> checksumPass Join (sumOf fs) before after a \<notin> set L)
         \<and> (\<forall>a\<in>set after. \<forall>e. lookup before (Path Join a) = Some e
                \<and> Size a = Size (eFile e) \<and> ModTime a = ModTime (eFile e)
              \<longrightarrow> checksumPass Join (sumOf fs) before after a \<notin> set L)
         \<and> (\<forall>a\<in>set after. \<forall>e. lookup before (Path Join a) = Some e
                \<and> IsDir a \<and> ModTime a = ModTime (eFile e)
              \<longrightarrow> checksumPass Join (sumOf fs) before after a \<notin> set L)"
    using L p1 p2 p3 unfolding ck_def by blast
qed

text \<open>A stored manifest with two regular files and a directory, as read back from its JSON.\<close>

definition storedManifest :: Manifest where
  "storedManifest = buildPathMap simpleJoin (decodedManifest 3 ''s'' 0 0
     [\<lparr> eFile = (mockFile ''a'' 10) \<lparr> SHA1 := replicate 20 1 \<rparr>, eSet = ''s'',
         Parts = [\<lparr> Key = ''0'', Range = (0, 0) \<rparr>] \<rparr>,
      \<lparr> eFile = (mockFile ''b'' 20) \<lparr> SHA1 := replicate 20 1 \<rparr>, eSet = ''s'',
         Parts = [\<lparr> Key = ''0'', Range = (0, 0) \<rparr>] \<rparr>,
      \<lparr> eFile = mockDir ''d'', eSet = ''s'', Parts = [] \<rparr>])"

lemma storedManifest_lookup:
  "lookup storedManifest ''//a'' = Some \<lparr> eFile = (mockFile ''a'' 10) \<lparr> SHA1 := replicate 20 1 \<rparr>, eSet = ''s'',
         Parts = [\<lparr> Key = ''0'', Range = (0, 0) \<rparr>] \<rparr>"
  "lookup storedManifest ''//b'' = Some \<lparr> eFile = (mockFile ''b'' 20) \<lparr> SHA1 := replicate 20 1 \<rparr>, eSet = ''s'',
         Parts = [\<lparr> Key = ''0'', Range = (0, 0) \<rparr>] \<rparr>"
  "lookup storedManifest ''//d'' = Some \<lparr> eFile = mockDir ''d'', eSet = ''s'', Parts = [] \<rparr>"
  "lookup storedManifest ''//c'' = None"
  by (simp_all add: storedManifest_def lookup_def buildPathMap_def decodedManifest_def entryPath_def
      Path_def simpleJoin_def mockFile_def mockDir_def upt_conv_Cons)

text \<open>
  Claim C3 as stated fails. The scanned directory \<^verbatim>\<open>//d\<close> has another size than its
  stored entry and the same modification time: \<^verbatim>\<open>Compare\<close> does not return it, since
  the sizes of directories are not compared. And when the file \<^verbatim>\<open>//a\<close>, whose
  modification time has changed, cannot be read, \<^verbatim>\<open>Compare\<close> returns nothing at all:
  the checksum pass ends the process.
\<close>

theorem Compare_skips_directory_size:
  "Compare simpleJoin (\<lambda>f. Some (replicate 20 2)) storedManifest [(mockDir ''d'') \<lparr> Size := 8192 \<rparr>]
     = Changed []
   \<and> lookup storedManifest (Path simpleJoin ((mockDir ''d'') \<lparr> Size := 8192 \<rparr>))
       = Some \<lparr> eFile = mockDir ''d'', eSet = ''s'', Parts = [] \<rparr>
   \<and> Size ((mockDir ''d'') \<lparr> Size := 8192 \<rparr>) \<noteq> Size (mockDir ''d'')
   \<and> Compare simpleJoin (\<lambda>f. None) storedManifest [(mockFile ''a'' 10) \<lparr> ModTime := 7 \<rparr>]
     = CompareExits"
proof -
  define d where "d = (mockDir ''d'') \<lparr> Size := 8192 \<rparr>"
  define a where "a = (mockFile ''a'' 10) \<lparr> ModTime := 7 \<rparr>"
  have pd: "Path simpleJoin d = ''//d''"
    by (simp add: d_def Path_def simpleJoin_def mockFile_def mockDir_def)
  have dd: "IsDir d" "ModTime d = ModTime (mockDir ''d'')"
    by (simp_all add: d_def IsDir_def mockDir_def mockFile_def ModeDir_def)
  have nc: "\<not> candidate simpleJoin storedManifest d"
    by (simp add: candidate_def pd storedManifest_lookup dd)
  have nT: "\<not> isTouched simpleJoin storedManifest d" "\<not> isChanged simpleJoin storedManifest d"
    using nc by (simp_all add: candidate_split)
  have c1: "Compare simpleJoin (\<lambda>f. Some (replicate 20 2)) storedManifest [d] = Changed []"
    by (simp add: Compare_eq nT readFails_def nc)
  have pa: "Path simpleJoin a = ''//a''" by (simp add: a_def Path_def simpleJoin_def mockFile_def)
  have cand: "candidate simpleJoin storedManifest a"
    by (simp add: candidate_def pa storedManifest_lookup) (simp add: a_def mockFile_def)
  have nh: "needsHash a"
    by (simp add: needsHash_def a_def mockFile_def IsRegular_def ModeType_def ModeDir_def
        ModeSymlink_def ModeNamedPipe_def ModeSocket_def ModeDevice_def ModeCharDevice_def
        ModeIrregular_def HasChecksum_def)
  have "unreadable (\<lambda>f. None) a" using nh by (simp add: unreadable_def needsHash_def)
  then have "readFails simpleJoin (\<lambda>f. None) storedManifest [a]"
    using cand nh by (simp add: readFails_def)
  then have c2: "Compare simpleJoin (\<lambda>f. None) storedManifest [a] = CompareExits"
    by (simp add: Compare_eq)
  have "Size d \<noteq> Size (mockDir ''d'')" by (simp add: d_def)
  then show ?thesis using c1 c2 pd storedManifest_lookup(3) unfolding d_def a_def by simp
qed

theorem Compare_exact_witness:
  "(\<exists>L. Compare simpleJoin (\<lambda>f. Some (replicate 20 1)) storedManifest
          [(mockFile ''a'' 10) \<lparr> ModTime := 7 \<rparr>, mockFile ''b'' 21, mockFile ''c'' 5,
           (mockDir ''d'') \<lparr> Size := 8192 \<rparr>] = Changed L
     \<and> lookup storedManifest (Path simpleJoin ((mockFile ''a'' 10) \<lparr> ModTime := 7 \<rparr>))
         = Some \<lparr> eFile = (mockFile ''a'' 10) \<lparr> SHA1 := replicate 20 1 \<rparr>, eSet = ''s'',
             Parts = [\<lparr> Key = ''0'', Range = (0, 0) \<rparr>] \<rparr>
     \<and> checksumPass simpleJoin (sumOf (\<lambda>f. Some (replicate 20 1))) storedManifest
          [(mockFile ''a'' 10) \<lparr> ModTime := 7 \<rparr>, mockFile ''b'' 21, mockFile ''c'' 5,
           (mockDir ''d'') \<lparr> Size := 8192 \<rparr>]
          ((mockFile ''a'' 10) \<lparr> ModTime := 7 \<rparr>) \<notin> set L
     \<and> checksumPass simpleJoin (sumOf (\<lambda>f. Some (replicate 20 1))) storedManifest
          [(mockFile ''a'' 10) \<lparr> ModTime := 7 \<rparr>, mockFile ''b'' 21, mockFile ''c'' 5,
           (mockDir ''d'') \<lparr> Size := 8192 \<rparr>]
          ((mockDir ''d'') \<lparr> Size := 8192 \<rparr>) \<notin> set L)
   \<and> readFails simpleJoin (\<lambda>f. None) storedManifest [(mockFile ''a'' 10) \<lparr> ModTime := 7 \<rparr>]
   \<and> Compare simpleJoin (\<lambda>f. None) storedManifest [(mockFile ''a'' 10) \<lparr> ModTime := 7 \<rparr>]
       = CompareExits"
proof -
  define a where "a = (mockFile ''a'' 10) \<lparr> ModTime := 7 \<rparr>"
  define d where "d = (mockDir ''d'') \<lparr> Size := 8192 \<rparr>"
  define fl where "fl = [a, mockFile ''b'' 21, mockFile ''c'' 5, d]"
  define e where "e = \<lparr> eFile = (mockFile ''a'' 10) \<lparr> SHA1 := replicate 20 1 \<rparr>, eSet = ''s'',
             Parts = [\<lparr> Key = ''0'', Range = (0, 0) \<rparr>] \<rparr>"
  define fs where "fs = (\<lambda>f :: File. Some (replicate 20 (1 :: byte)))"
  define ck where "ck = checksumPass simpleJoin (sumOf fs) storedManifest fl"
  have p: "Path simpleJoin a = ''//a''" by (simp add: a_def Path_def simpleJoin_def mockFile_def)
  have l: "lookup storedManifest (Path simpleJoin a) = Some e"
    by (simp add: p storedManifest_lookup e_def)
  have sz: "IsDir a \<or> Size a = Size (eFile e)" by (simp add: a_def e_def mockFile_def)
  have cand: "candidate simpleJoin storedManifest a"
    by (simp add: candidate_def l) (simp add: a_def e_def mockFile_def)
  have nh: "needsHash a"
    by (simp add: needsHash_def a_def mockFile_def IsRegular_def ModeType_def ModeDir_def
        ModeSymlink_def ModeNamedPipe_def ModeSocket_def ModeDevice_def ModeCharDevice_def
        ModeIrregular_def HasChecksum_def)
  have "list_ex needsHash (filter (candidate simpleJoin storedManifest) fl)"
    using cand nh by (simp add: fl_def)
  then have ckr: "ck = rehash (sumOf fs)" by (simp add: ck_def checksumPass_def)
  have reg: "IsRegular a" using nh by (simp add: needsHash_def a_def mockFile_def IsSymlink_def ModeSymlink_def)
  have sh: "SHA1 (ck a) = SHA1 (eFile e)" using reg by (simp add: ckr rehash_def e_def sumOf_def fs_def)
  have pd: "Path simpleJoin d = ''//d''"
    by (simp add: d_def Path_def simpleJoin_def mockFile_def mockDir_def)
  have ld: "lookup storedManifest (Path simpleJoin d) = Some \<lparr> eFile = mockDir ''d'', eSet = ''s'', Parts = [] \<rparr>"
    by (simp add: pd storedManifest_lookup)
  have dd: "IsDir d" "ModTime d = ModTime (mockDir ''d'')"
    by (simp_all add: d_def IsDir_def mockDir_def mockFile_def ModeDir_def)
  have nf: "\<not> readFails simpleJoin fs storedManifest fl"
    by (simp add: readFails_def list_ex_iff unreadable_def fs_def)
  from Compare_exact[of simpleJoin fs storedManifest fl] nf obtain L where
    L: "Compare simpleJoin fs storedManifest fl = Changed L"
    and n: "\<forall>a\<in>set fl. \<forall>e. lookup storedManifest (Path simpleJoin a) = Some e
            \<and> (IsDir a \<or> Size a = Size (eFile e)) \<and> SHA1 (ck a) = SHA1 (eFile e)
          \<longrightarrow> ck a \<notin> set L"
    and n3: "\<forall>a\<in>set fl. \<forall>e. lookup storedManifest (Path simpleJoin a) = Some e
            \<and> IsDir a \<and> ModTime a = ModTime (eFile e)
          \<longrightarrow> ck a \<notin> set L"
    unfolding ck_def by blast
  have "a \<in> set fl" "d \<in> set fl" by (simp_all add: fl_def)
  then have "ck a \<notin> set L" "ck d \<notin> set L" using n n3 l sz sh ld dd by auto
  then have one: "\<exists>L. Compare simpleJoin fs storedManifest fl = Changed L
      \<and> lookup storedManifest (Path simpleJoin a) = Some e \<and> ck a \<notin> set L \<and> ck d \<notin> set L"
    using L l by blast
  have "unreadable (\<lambda>f. None) a" using nh by (simp add: unreadable_def needsHash_def)
  then have rf: "readFails simpleJoin (\<lambda>f. None) storedManifest [a]"
    using cand nh by (simp add: readFails_def)
  then have two: "Compare simpleJoin (\<lambda>f. None) storedManifest [a] = CompareExits"
    using Compare_exact[of simpleJoin "\<lambda>f. None" storedManifest "[a]"] by blast
  show ?thesis using one rf two unfolding ck_def fl_def a_def d_def e_def fs_def by blast
qed

section \<open>Uploading the latest set (backupLatest)\<close>

text \<open>
  \<^verbatim>\<open>backupLatest\<close> starts one goroutine per bundle and waits for all of them before it
  saves the manifest. The goroutines share the manifest \<^verbatim>\<open>m\<close> and the counters and take
  no lock (the mutex of \<^verbatim>\<open>Manifest\<close> is commented out in the source). \<open>backupLatest\<close>
  below is the run in which the goroutines do not overlap: the bundles are taken one after
  the other, each to completion, in the order \<open>order\<close> gives to the entries of the Go map.
  It is all there is when the latest set has no bundle, since no goroutine starts then;
  what overlapping rollbacks do to the manifest is the subject of a subsection of its own,
  statement by statement.

  What happens to a bundle in the store is the parameter \<open>upload\<close>: \<^verbatim>\<open>store.Pack\<close>
  fails, \<^verbatim>\<open>packer.PutReader\<close> fails, \<^verbatim>\<open>packer.Close\<close> fails, or the object is stored
  with a byte count. Once \<^verbatim>\<open>store.Pack\<close> has succeeded the storage layer is already
  writing the object: \<^verbatim>\<open>FileStorage.PutReader\<close> creates the file at once and leaves what
  it has written when the copy fails, so a failed put or close comes with a flag saying
  whether the layer has left such an incomplete object. The store is seen through its
  writes: \<open>PutBlob\<close> for a bundle whose pack, put and close all succeeded,
  \<open>PartialBlob\<close> for an incomplete object left behind, and the three writes of
  \<^verbatim>\<open>saveManifest\<close>, each of which may fail (\<open>save_fault\<close>).
\<close>

datatype pack_result = PackFails | PutReaderFails bool | CloseFails bool | Stored nat

datatype save_fault = NoFault | JSONFails | WriteFileFails | PutFails | PutMetadataFails

datatype backup_error = ErrJSON | ErrWriteFile | ErrPut | ErrPutMetadata

datatype store_write =
    PutBlob string
  | PartialBlob string
  | WriteLocalFile string Manifest
  | PutObject string Manifest
  | PutMetadata string string

definition saveManifest :: "save_fault \<Rightarrow> Manifest \<Rightarrow> backup_error option \<times> store_write list" where
  "saveManifest fault m =
     (if fault = JSONFails then (Some ErrJSON, [])
      else if fault = WriteFileFails then (Some ErrWriteFile, [])
      else if fault = PutFails then (Some ErrPut, [WriteLocalFile ''manifest.json~'' m])
      else if fault = PutMetadataFails
        then (Some ErrPutMetadata,
              [WriteLocalFile ''manifest.json~'' m, PutObject (''manifest/'' @ LastSet m) m])
      else (None,
            [WriteLocalFile ''manifest.json~'' m, PutObject (''manifest/'' @ LastSet m) m,
             PutMetadata ''manifest/latest'' (LastSet m)]))"

text \<open>
  The variables the goroutines share: the manifest \<^verbatim>\<open>m\<close> and the counters.
  \<open>dropFromManifest\<close> is the closure of that name, \<open>bundleFiles\<close> the loop that collects
  \<^verbatim>\<open>e.File\<close> of the entries that are no directories, read from the entry objects when the
  bundle's turn comes, and \<open>uploadBundle\<close> the body of the loop over the map. A panic of
  \<^verbatim>\<open>Remove\<close> is the result \<open>None\<close>.
\<close>

record uploads =
  um :: Manifest
  totalPuts :: int
  donePuts :: int
  doneBytes :: nat
  writes :: "store_write list"

definition removeFile ::
  "(string \<Rightarrow> string \<Rightarrow> string) \<Rightarrow> Manifest option \<Rightarrow> File \<Rightarrow> Manifest option" where
  "removeFile Join mo f =
     (case mo of None \<Rightarrow> None | Some m \<Rightarrow> map_option snd (Remove Join m f))"

definition dropFromManifest ::
  "(string \<Rightarrow> string \<Rightarrow> string) \<Rightarrow> uploads \<Rightarrow> File list \<Rightarrow> uploads option" where
  "dropFromManifest Join st files =
     (case foldl (removeFile Join) (Some (um st)) files of
        None \<Rightarrow> None
      | Some m \<Rightarrow> Some (st \<lparr> totalPuts := totalPuts st - 1, um := m \<rparr>))"

definition bundleFiles :: "Manifest \<Rightarrow> ptr list \<Rightarrow> File list" where
  "bundleFiles m entries =
     map (\<lambda>e. eFile (heap m e)) (filter (\<lambda>e. \<not> IsDir (eFile (heap m e))) entries)"

definition leftBehind :: "pack_result \<Rightarrow> string \<Rightarrow> store_write list" where
  "leftBehind r key =
     (case r of
        PutReaderFails True \<Rightarrow> [PartialBlob (''blob/'' @ key)]
      | CloseFails True \<Rightarrow> [PartialBlob (''blob/'' @ key)]
      | _ \<Rightarrow> [])"

definition uploadBundle ::
  "(string \<Rightarrow> string \<Rightarrow> string) \<Rightarrow> (string \<Rightarrow> File list \<Rightarrow> pack_result) \<Rightarrow> uploads option
     \<Rightarrow> string \<times> ptr list \<Rightarrow> uploads option" where
  "uploadBundle Join upload sto kv =
     (case sto of
        None \<Rightarrow> None
      | Some st \<Rightarrow>
          (case kv of (key, entries) \<Rightarrow>
             (let files = bundleFiles (um st) entries in
              case upload key files of
                Stored n \<Rightarrow>
                  Some (st \<lparr> donePuts := donePuts st + 1, doneBytes := doneBytes st + n,
                             writes := writes st @ [PutBlob (''blob/'' @ key)] \<rparr>)
              | r \<Rightarrow>
                  dropFromManifest Join (st \<lparr> writes := writes st @ leftBehind r key \<rparr>) files)))"

definition backupLatest ::
  "(string \<Rightarrow> string \<Rightarrow> string) \<Rightarrow> (string \<Rightarrow> File list \<Rightarrow> pack_result) \<Rightarrow> save_fault
     \<Rightarrow> ((string \<times> ptr list) list \<Rightarrow> (string \<times> ptr list) list) \<Rightarrow> Manifest
     \<Rightarrow> (backup_error option \<times> store_write list \<times> uploads) option" where
  "backupLatest Join upload fault order m =
     (let latest = LatestEntries m;
          st0 = \<lparr> um = m, totalPuts = int (length latest), donePuts = 0, doneBytes = 0, writes = [] \<rparr>
      in if totalPuts st0 > 0 then
           (case foldl (uploadBundle Join upload) (Some st0) (order latest) of
              None \<Rightarrow> None
            | Some st \<Rightarrow>
                (case saveManifest fault (um st) of
                   (err, ws) \<Rightarrow> Some (err, writes st @ ws, st)))
         else Some (None, [], st0))"


text \<open>\<open>latestStep\<close> is the body of the loop of \<^verbatim>\<open>LatestEntries\<close> over the entries.\<close>

definition latestStep :: "Manifest \<Rightarrow> (string \<times> ptr list) list \<Rightarrow> ptr \<Rightarrow> (string \<times> ptr list) list" where
  "latestStep m entries e =
     (if eSet (heap m e) = LastSet m
      then foldl (\<lambda>entries p. LatestEntries_add (LastSet m @ ''/'' @ Key p) e entries)
             entries (Parts (heap m e))
      else entries)"

lemma LatestEntries_fold: "LatestEntries m = foldl (latestStep m) [] (Entries m)"
  by (simp add: LatestEntries_def latestStep_def[abs_def])

lemma latestStep_none:
  "eSet (heap m e) = LastSet m \<longrightarrow> Parts (heap m e) = [] \<Longrightarrow> latestStep m entries e = entries"
  by (auto simp: latestStep_def)

lemma LatestEntries_empty:
  assumes "\<forall>e\<in>set (Entries m). eSet (heap m e) = LastSet m \<longrightarrow> Parts (heap m e) = []"
  shows "LatestEntries m = []"
proof -
  have "foldl (latestStep m) entries es = entries"
    if "\<forall>e\<in>set es. eSet (heap m e) = LastSet m \<longrightarrow> Parts (heap m e) = []" for es entries
    using that by (induction es arbitrary: entries) (simp_all add: latestStep_none)
  then show ?thesis using assms by (simp add: LatestEntries_fold)
qed

definition isStored :: "pack_result \<Rightarrow> bool" where
  "isStored r = (case r of Stored n \<Rightarrow> True | _ \<Rightarrow> False)"

subsection \<open>Rollbacks that overlap\<close>

text \<open>
  The goroutine of a bundle whose upload has failed runs \<^verbatim>\<open>dropFromManifest\<close>:
  it decrements \<^verbatim>\<open>totalPuts\<close> and calls \<^verbatim>\<open>m.Remove\<close> for each file of the bundle.
  Several of them run at the same time on the same \<^verbatim>\<open>m\<close>. Here every statement of
  \<^verbatim>\<open>Remove\<close> and \<^verbatim>\<open>removeEntry\<close> is one step, and a schedule says which goroutine
  takes the next step; the real goroutines can interleave at least that finely.

  \<^verbatim>\<open>m.Entries\<close> is a slice: a backing array, whose elements \<^verbatim>\<open>removeEntry\<close> sets to
  nil, and a length. Indexing at or beyond the length panics, and so does reslicing beyond
  the capacity and dereferencing nil; a panic in a goroutine ends the program.
\<close>

datatype rollback_panic = OutOfRange | NilPointer | SliceBounds

record shared =
  sArr :: "ptr option list"
  sLen :: nat
  sPathMap :: "string \<Rightarrow> ptr option"
  sHeap :: "ptr \<Rightarrow> ManifestEntry"
  sTotalPuts :: int

text \<open>
  The statements of a rollback, and the local variables of the goroutine: the files still
  to remove (the first one is being removed), \<^verbatim>\<open>ptr\<close>, \<^verbatim>\<open>oldPath\<close>, \<^verbatim>\<open>lastIndex\<close> and
  \<^verbatim>\<open>lastEntry\<close>.
\<close>

datatype label =
    AtDecrement   \<comment> \<open>\<^verbatim>\<open>totalPuts -= 1\<close>\<close>
  | AtLookup      \<comment> \<open>\<^verbatim>\<open>ptr, found := m.pathMap[f.Path()]\<close>\<close>
  | AtOldPath     \<comment> \<open>\<^verbatim>\<open>oldPath := ptr.Path()\<close>\<close>
  | AtLastIndex   \<comment> \<open>\<^verbatim>\<open>lastIndex := len(m.Entries) - 1\<close>\<close>
  | AtLastEntry   \<comment> \<open>\<^verbatim>\<open>lastEntry := m.Entries[lastIndex]\<close>\<close>
  | AtCopy        \<comment> \<open>\<^verbatim>\<open>*ptr = *lastEntry\<close>\<close>
  | AtRegister    \<comment> \<open>\<^verbatim>\<open>m.pathMap[lastEntry.Path()] = ptr\<close>\<close>
  | AtClear       \<comment> \<open>\<^verbatim>\<open>m.Entries[lastIndex] = nil\<close>\<close>
  | AtTruncate    \<comment> \<open>\<^verbatim>\<open>m.Entries = m.Entries[:lastIndex]\<close>\<close>
  | AtDelete      \<comment> \<open>\<^verbatim>\<open>delete(m.pathMap, oldPath)\<close>\<close>
  | AtDone

record goroutine =
  gFiles :: "File list"
  gPc :: label
  gPtr :: ptr
  gOldPath :: string
  gLastIndex :: int
  gLastEntry :: "ptr option"

definition nextFile :: "goroutine \<Rightarrow> goroutine" where
  "nextFile g = g \<lparr> gFiles := tl (gFiles g), gPc := (if tl (gFiles g) = [] then AtDone else AtLookup) \<rparr>"

definition gstep ::
  "(string \<Rightarrow> string \<Rightarrow> string) \<Rightarrow> shared \<Rightarrow> goroutine \<Rightarrow> rollback_panic + shared \<times> goroutine" where
  "gstep Join s g =
     (case gPc g of
        AtDecrement \<Rightarrow>
          Inr (s \<lparr> sTotalPuts := sTotalPuts s - 1 \<rparr>,
               g \<lparr> gPc := (if gFiles g = [] then AtDone else AtLookup) \<rparr>)
      | AtLookup \<Rightarrow>
          (case sPathMap s (Path Join (hd (gFiles g))) of
             None \<Rightarrow> Inr (s, nextFile g)
           | Some p \<Rightarrow> Inr (s, g \<lparr> gPtr := p, gPc := AtOldPath \<rparr>))
      | AtOldPath \<Rightarrow>
          Inr (s, g \<lparr> gOldPath := Path Join (eFile (sHeap s (gPtr g))), gPc := AtLastIndex \<rparr>)
      | AtLastIndex \<Rightarrow>
          Inr (s, g \<lparr> gLastIndex := int (sLen s) - 1, gPc := AtLastEntry \<rparr>)
      | AtLastEntry \<Rightarrow>
          if gLastIndex g < 0 \<or> int (sLen s) \<le> gLastIndex g then Inl OutOfRange
          else Inr (s, g \<lparr> gLastEntry := sArr s ! nat (gLastIndex g), gPc := AtCopy \<rparr>)
      | AtCopy \<Rightarrow>
          (case gLastEntry g of
             None \<Rightarrow> Inl NilPointer
           | Some q \<Rightarrow> Inr (s \<lparr> sHeap := (sHeap s) (gPtr g := sHeap s q) \<rparr>, g \<lparr> gPc := AtRegister \<rparr>))
      | AtRegister \<Rightarrow>
          (case gLastEntry g of
             None \<Rightarrow> Inl NilPointer
           | Some q \<Rightarrow>
               Inr (s \<lparr> sPathMap := (sPathMap s) (Path Join (eFile (sHeap s q)) \<mapsto> gPtr g) \<rparr>,
                    g \<lparr> gPc := AtClear \<rparr>))
      | AtClear \<Rightarrow>
          if gLastIndex g < 0 \<or> int (sLen s) \<le> gLastIndex g then Inl OutOfRange
          else Inr (s \<lparr> sArr := (sArr s) [nat (gLastIndex g) := None] \<rparr>, g \<lparr> gPc := AtTruncate \<rparr>)
      | AtTruncate \<Rightarrow>
          if gLastIndex g < 0 \<or> int (length (sArr s)) < gLastIndex g then Inl SliceBounds
          else Inr (s \<lparr> sLen := nat (gLastIndex g) \<rparr>, g \<lparr> gPc := AtDelete \<rparr>)
      | AtDelete \<Rightarrow>
          Inr (s \<lparr> sPathMap := (sPathMap s) (gOldPath g := None) \<rparr>, nextFile g)
      | AtDone \<Rightarrow> Inr (s, g))"

text \<open>
  A run: the schedule names, step by step, the goroutine that moves. The first panic ends
  the program.
\<close>

datatype run_state = Running shared "goroutine list" | Crashed rollback_panic

fun runRollbacks :: "(string \<Rightarrow> string \<Rightarrow> string) \<Rightarrow> nat list \<Rightarrow> run_state \<Rightarrow> run_state" where
  "runRollbacks Join [] st = st"
| "runRollbacks Join (i # sched) (Crashed p) = Crashed p"
| "runRollbacks Join (i # sched) (Running s gs) =
     (if i < length gs then
        (case gstep Join s (gs ! i) of
           Inl p \<Rightarrow> Crashed p
         | Inr (s', g') \<Rightarrow> runRollbacks Join sched (Running s' (gs [i := g'])))
      else runRollbacks Join sched (Running s gs))"

definition crashedWith :: "run_state \<Rightarrow> rollback_panic option" where
  "crashedWith st = (case st of Crashed p \<Rightarrow> Some p | Running s gs \<Rightarrow> None)"

text \<open>
  The goroutines that roll back, one per bundle whose upload fails, with the files
  \<^verbatim>\<open>backupLatest\<close> has collected for them, and the shared variables as they are when
  all goroutines have been started.
\<close>

definition startRollbacks :: "Manifest \<Rightarrow> (string \<Rightarrow> File list \<Rightarrow> pack_result) \<Rightarrow> run_state" where
  "startRollbacks m upload =
     Running
       \<lparr> sArr = map Some (Entries m), sLen = length (Entries m), sPathMap = pathMap m,
         sHeap = heap m, sTotalPuts = int (length (LatestEntries m)) \<rparr>
       (map (\<lambda>kv. \<lparr> gFiles = bundleFiles m (snd kv), gPc = AtDecrement, gPtr = 0, gOldPath = [],
                     gLastIndex = 0, gLastEntry = None \<rparr>)
            (filter (\<lambda>kv. \<not> isStored (upload (fst kv) (bundleFiles m (snd kv)))) (LatestEntries m)))"

text \<open>A manifest with two bundles: \<^verbatim>\<open>s/0\<close> holds the files a and c, \<^verbatim>\<open>s/1\<close> the file b.\<close>

definition twoBundles :: Manifest where
  "twoBundles = buildPathMap simpleJoin (decodedManifest 3 ''s'' 0 0
     [\<lparr> eFile = mockFile ''a'' 10, eSet = ''s'', Parts = [\<lparr> Key = ''0'', Range = (0, 0) \<rparr>] \<rparr>,
      \<lparr> eFile = mockFile ''b'' 20, eSet = ''s'', Parts = [\<lparr> Key = ''1'', Range = (0, 0) \<rparr>] \<rparr>,
      \<lparr> eFile = mockFile ''c'' 30, eSet = ''s'', Parts = [\<lparr> Key = ''0'', Range = (0, 0) \<rparr>] \<rparr>])"

lemma twoBundles_simps:
  "Entries twoBundles = [0, Suc 0, 2]" "LastSet twoBundles = ''s''"
  "heap twoBundles 0 = \<lparr> eFile = mockFile ''a'' 10, eSet = ''s'', Parts = [\<lparr> Key = ''0'', Range = (0, 0) \<rparr>] \<rparr>"
  "heap twoBundles (Suc 0) = \<lparr> eFile = mockFile ''b'' 20, eSet = ''s'', Parts = [\<lparr> Key = ''1'', Range = (0, 0) \<rparr>] \<rparr>"
  "heap twoBundles 2 = \<lparr> eFile = mockFile ''c'' 30, eSet = ''s'', Parts = [\<lparr> Key = ''0'', Range = (0, 0) \<rparr>] \<rparr>"
  by (simp_all add: twoBundles_def buildPathMap_def decodedManifest_def upt_conv_Cons)

lemma twoBundles_latest: "LatestEntries twoBundles = [(''s/0'', [0, 2]), (''s/1'', [Suc 0])]"
  by (simp add: LatestEntries_def twoBundles_simps LatestEntries_add_def)

lemma twoBundles_pathMap:
  "pathMap twoBundles = [''//a'' \<mapsto> 0, ''//b'' \<mapsto> Suc 0, ''//c'' \<mapsto> 2]"
  by (simp add: twoBundles_def buildPathMap_def decodedManifest_def entryPath_def Path_def
      simpleJoin_def mockFile_def upt_conv_Cons numeral_2_eq_2)

text \<open>
  Claim C2 at two bundles that both fail. The goroutine of bundle \<^verbatim>\<open>s/1\<close> (number 1)
  decrements the count, looks up its file \<^verbatim>\<open>//b\<close> and reads \<^verbatim>\<open>lastIndex\<close> = 2; then
  the goroutine of bundle \<^verbatim>\<open>s/0\<close> (number 0) removes its file \<^verbatim>\<open>//a\<close> completely,
  which truncates \<^verbatim>\<open>m.Entries\<close> to two elements; then goroutine 1 goes on with
  \<^verbatim>\<open>m.Entries[lastIndex]\<close>: index 2 is out of range and the program ends in a panic,
  with the rollback of neither bundle complete and no manifest saved.
\<close>

theorem rollbacks_overlapping_crash:
  "runRollbacks simpleJoin [1, 1, 1, 1, 0, 0, 0, 0, 0, 0, 0, 0, 0, 0, 1]
     (startRollbacks twoBundles (\<lambda>key files. PutReaderFails True))
   = Crashed OutOfRange"
proof -
  have "crashedWith (runRollbacks simpleJoin [1, 1, 1, 1, 0, 0, 0, 0, 0, 0, 0, 0, 0, 0, 1]
     (startRollbacks twoBundles (\<lambda>key files. PutReaderFails True))) = Some OutOfRange"
    by code_simp
  then show ?thesis by (simp add: crashedWith_def split: run_state.splits)
qed

text \<open>
  When the two rollbacks do not overlap (goroutine 0 runs to its end, then goroutine 1) all
  three files are removed and the count is back at zero.
\<close>

lemma rollbacks_in_turn:
  "(case runRollbacks simpleJoin
           [0, 0, 0, 0, 0, 0, 0, 0, 0, 0, 0, 0, 0, 0, 0, 0, 0, 0, 0, 1, 1, 1, 1, 1, 1, 1, 1, 1, 1]
           (startRollbacks twoBundles (\<lambda>key files. PutReaderFails True)) of
      Running s gs \<Rightarrow>
        sLen s = 0 \<and> sTotalPuts s = 0 \<and> map gPc gs = [AtDone, AtDone]
        \<and> sPathMap s ''//a'' = None \<and> sPathMap s ''//b'' = None \<and> sPathMap s ''//c'' = None
    | Crashed p \<Rightarrow> False)"
  by code_simp

text \<open>
  And in the run without overlap, a bundle whose put fails after the storage layer has
  created the object is gone from the manifest while its incomplete object stays in the
  store.
\<close>

lemma failed_put_leaves_object:
  "(case backupLatest simpleJoin (\<lambda>key files. if key = ''s/0'' then PutReaderFails True else Stored 20)
           NoFault id twoBundles of
      Some (err, ws, st) \<Rightarrow>
        list_ex (\<lambda>w. case w of PartialBlob k \<Rightarrow> k = ''blob/s/0'' | _ \<Rightarrow> False) ws
        \<and> \<not> Has simpleJoin (um st) (mockFile ''a'' 10) \<and> \<not> Has simpleJoin (um st) (mockFile ''c'' 30)
        \<and> Has simpleJoin (um st) (mockFile ''b'' 20)
    | None \<Rightarrow> False)"
  by code_simp

text \<open>
  Claim C10. If every entry of the manifest whose set is the last set is a directory, and
  directory entries have no parts, then \<^verbatim>\<open>LatestEntries\<close> is empty and
  \<^verbatim>\<open>backupLatest\<close> returns without an error and without any write: neither a blob, nor
  the object \<^verbatim>\<open>manifest/<last set>\<close>, nor the pointer \<^verbatim>\<open>manifest/latest\<close>; the
  manifest is left as it was.
\<close>

theorem backupLatest_only_directories:
  assumes dirs: "\<forall>p\<in>set (Entries m). eSet (heap m p) = LastSet m \<longrightarrow> IsDir (eFile (heap m p))"
    and noparts: "\<forall>p\<in>set (Entries m). IsDir (eFile (heap m p)) \<longrightarrow> Parts (heap m p) = []"
  shows "LatestEntries m = []
     \<and> (\<exists>st. backupLatest Join upload fault order m = Some (None, [], st) \<and> um st = m)"
proof -
  have "\<forall>e\<in>set (Entries m). eSet (heap m e) = LastSet m \<longrightarrow> Parts (heap m e) = []"
    using dirs noparts by blast
  then have e: "LatestEntries m = []" by (rule LatestEntries_empty)
  then show ?thesis by (simp add: backupLatest_def Let_def)
qed

text \<open>A manifest whose last set \<^verbatim>\<open>t\<close> only added a directory to an older file.\<close>

definition onlyDirsChanged :: Manifest where
  "onlyDirsChanged = buildPathMap simpleJoin (decodedManifest 3 ''t'' 0 0
     [\<lparr> eFile = mockFile ''a'' 10, eSet = ''s'', Parts = [\<lparr> Key = ''0'', Range = (0, 0) \<rparr>] \<rparr>,
      \<lparr> eFile = mockDir ''d'', eSet = ''t'', Parts = [] \<rparr>])"

theorem backupLatest_only_directories_witness:
  "LatestEntries onlyDirsChanged = []
     \<and> (\<exists>st. backupLatest simpleJoin (\<lambda>key files. Stored 20) NoFault id onlyDirsChanged = Some (None, [], st)
          \<and> um st = onlyDirsChanged)"
proof -
  have s: "Entries onlyDirsChanged = [0, Suc 0]" "LastSet onlyDirsChanged = ''t''"
    "heap onlyDirsChanged 0 = \<lparr> eFile = mockFile ''a'' 10, eSet = ''s'', Parts = [\<lparr> Key = ''0'', Range = (0, 0) \<rparr>] \<rparr>"
    "heap onlyDirsChanged (Suc 0) = \<lparr> eFile = mockDir ''d'', eSet = ''t'', Parts = [] \<rparr>"
    by (simp_all add: onlyDirsChanged_def buildPathMap_def decodedManifest_def upt_conv_Cons)
  have d: "\<forall>p\<in>set (Entries onlyDirsChanged). eSet (heap onlyDirsChanged p) = LastSet onlyDirsChanged
      \<longrightarrow> IsDir (eFile (heap onlyDirsChanged p))"
    by (simp add: s)
  have n: "\<forall>p\<in>set (Entries onlyDirsChanged). IsDir (eFile (heap onlyDirsChanged p))
      \<longrightarrow> Parts (heap onlyDirsChanged p) = []"
    by (simp add: s)
  show ?thesis using backupLatest_only_directories[OF d n] by blast
qed

section \<open>Reading a manifest document (backup/manifest.go, backup/compatibility.go)\<close>



datatype manifest_error = ErrMalformedConfig | ErrBadManifestVersion | ErrJSON





























subsection \<open>Omitted members\<close>





























end
